theory Spec2Isabelle
  imports Complex_Main "HOL-Library.Signed_Division"
begin

section \<open>Numbers, buffers and loops of \<^verbatim>\<open>fluids.c\<close>\<close>

text \<open>
  The simulation core of \<^verbatim>\<open>src/Smoke/fluids.c\<close> (lines 51--242) is embedded as
  functions on a record of its global variables.

  \<^item> \<^verbatim>\<open>fftw_real\<close> (a \<^verbatim>\<open>double\<close>) values are real numbers: their arithmetic is exact,
    its rounding is not modelled. The conversions in \<^verbatim>\<open>clamp\<close> are modelled: the
    narrowing of its argument to \<^verbatim>\<open>float\<close>, the \<^verbatim>\<open>float\<close> subtraction and the cast
    to a 32-bit \<^verbatim>\<open>int\<close>.
  \<^item> \<^verbatim>\<open>int\<close> values are mathematical integers; \<^verbatim>\<open>/\<close> and \<^verbatim>\<open>%\<close> on them are C's
    truncating operators \<open>sdiv\<close> and \<open>smod\<close>. The theorems on the index arithmetic
    bound every intermediate value, so that no operation leaves the range of a
    machine \<^verbatim>\<open>int\<close> for the grid sizes the buffers can have.
  \<^item> A buffer is a list of reals; \<^verbatim>\<open>a[k]\<close> is \<open>rd a k\<close> and \<^verbatim>\<open>a[k] = v\<close> is
    \<open>wr a k v\<close>. An access outside the buffer is undefined in C; the theorems
    carry the buffer lengths as hypotheses and the advection indices are shown to
    lie inside the buffers.
\<close>

type_synonym fftw_real = real

definition rd :: "fftw_real list \<Rightarrow> int \<Rightarrow> fftw_real" where
  "rd a k = a ! nat k"

definition wr :: "fftw_real list \<Rightarrow> int \<Rightarrow> fftw_real \<Rightarrow> fftw_real list" where
  "wr a k v = (if 0 \<le> k then a[nat k := v] else a)"

text \<open>
  The conversion of a \<^verbatim>\<open>double\<close> to \<^verbatim>\<open>float\<close>, and the result of an operation on
  \<^verbatim>\<open>float\<close> operands: the nearest value with a significand of 24 bits, a tie going
  to the even significand. Below \<^verbatim>\<open>2^-126\<close> the values of the format are the
  multiples of \<^verbatim>\<open>2^-149\<close>. Values beyond the largest \<^verbatim>\<open>float\<close> are not set apart: they
  are out of the range of \<^verbatim>\<open>int\<close> like the infinity the conversion gives for them.
\<close>

definition round_to_even :: "real \<Rightarrow> int" where
  "round_to_even y =
     (let f = \<lfloor>y\<rfloor>; d = y - of_int f
      in if d < 1 / 2 then f else if 1 / 2 < d then f + 1 else if even f then f else f + 1)"

definition float_exponent :: "real \<Rightarrow> int" where
  "float_exponent x = max \<lfloor>log 2 \<bar>x\<bar>\<rfloor> (- 126)"

definition to_float :: "real \<Rightarrow> real" where
  "to_float x =
     (if x = 0 then 0
      else of_int (round_to_even (x / 2 powr of_int (float_exponent x - 23)))
           * 2 powr of_int (float_exponent x - 23))"

text \<open>
  The cast \<^verbatim>\<open>(int)(x)\<close> of a \<^verbatim>\<open>float\<close>: truncation towards zero when the result is an
  \<^verbatim>\<open>int\<close> (32 bits). Otherwise the cast is undefined in C; the conversion
  instruction of the x86 then returns \<^verbatim>\<open>INT_MIN\<close>, and so does the model.
  \<open>int_neg\<close> is the unary minus of \<^verbatim>\<open>int\<close>, which leaves \<^verbatim>\<open>INT_MIN\<close> as it is.
\<close>

definition int_cast :: "real \<Rightarrow> int" where
  "int_cast x =
     (if - (2 ^ 31) - 1 < x \<and> x < 2 ^ 31 then (if 0 \<le> x then \<lfloor>x\<rfloor> else \<lceil>x\<rceil>)
      else - (2 ^ 31))"

definition int_neg :: "int \<Rightarrow> int" where
  "int_neg k = (if k = - (2 ^ 31) then - (2 ^ 31) else - k)"

text \<open>\<^verbatim>\<open>for (i = i0; i < n; i++) body\<close>\<close>

function for_upto :: "int \<Rightarrow> int \<Rightarrow> (int \<Rightarrow> 's \<Rightarrow> 's) \<Rightarrow> 's \<Rightarrow> 's" where
  "for_upto i n body s = (if i < n then for_upto (i + 1) n body (body i s) else s)"
  by pat_completeness auto
termination
  by (relation "measure (\<lambda>(i, n, body, s). nat (n - i))") auto

declare for_upto.simps [simp del]

text \<open>\<^verbatim>\<open>for (i = i0; i <= n; i += 2) body\<close>\<close>

function for_by2 :: "int \<Rightarrow> int \<Rightarrow> (int \<Rightarrow> 's \<Rightarrow> 's) \<Rightarrow> 's \<Rightarrow> 's" where
  "for_by2 i n body s = (if i \<le> n then for_by2 (i + 2) n body (body i s) else s)"
  by pat_completeness auto
termination
  by (relation "measure (\<lambda>(i, n, body, s). nat (n + 1 - i))") auto

declare for_by2.simps [simp del]

text \<open>
  \<^verbatim>\<open>for (x = 0.5f/n, i = 0; i < n; i++, x += 1.0f/n) body\<close>: the loop of the two
  advection passes, which carries the cell-centre coordinate \<open>x\<close> along with the
  index. \<open>for_cells x i n body s\<close> is the loop entered with the current \<open>x\<close> and \<open>i\<close>.
\<close>

function for_cells ::
  "fftw_real \<Rightarrow> int \<Rightarrow> int \<Rightarrow> (fftw_real \<Rightarrow> int \<Rightarrow> 's \<Rightarrow> 's) \<Rightarrow> 's \<Rightarrow> 's" where
  "for_cells x i n body s =
     (if i < n then for_cells (x + 1 / of_int n) (i + 1) n body (body x i s) else s)"
  by pat_completeness auto
termination
  by (relation "measure (\<lambda>(x, i, n, body, s). nat (n - i))") auto

declare for_cells.simps [simp del]

section \<open>The global state\<close>

datatype fftw_direction = FFTW_REAL_TO_COMPLEX | FFTW_COMPLEX_TO_REAL

text \<open>
  A plan of the transform library: \<open>Plan2d nx ny dir\<close> is what
  \<^verbatim>\<open>rfftw2d_create_plan(nx, ny, dir, FFTW_IN_PLACE)\<close> returns, \<open>NoPlan\<close> the
  value of the plan variables before \<^verbatim>\<open>init_simulation\<close>.
\<close>

datatype rfftwnd_plan = NoPlan | Plan2d int int fftw_direction

record sim =
  vx :: "fftw_real list"
  vy :: "fftw_real list"
  vx0 :: "fftw_real list"
  vy0 :: "fftw_real list"
  fx :: "fftw_real list"
  fy :: "fftw_real list"
  rho :: "fftw_real list"
  rho0 :: "fftw_real list"
  plan_rc :: rfftwnd_plan
  plan_cr :: rfftwnd_plan
  dt :: real
  visc :: real
  frozen :: int
  redisplays :: nat

text \<open>
  \<open>redisplays\<close> counts the calls of \<^verbatim>\<open>glutPostRedisplay\<close>, the one effect of the
  simulation code outside its own variables.
\<close>

definition DIM :: int where
  "DIM = 50"

text \<open>
  The transform library (FFTW 2, \<^verbatim>\<open>rfftw.h\<close>) is not part of the program. Its two
  in-place transforms are parameters of the model: each takes a plan and the
  contents of the buffer and returns the new contents.
\<close>

record fftw =
  rfftwnd_one_real_to_complex :: "rfftwnd_plan \<Rightarrow> fftw_real list \<Rightarrow> fftw_real list"
  rfftwnd_one_complex_to_real :: "rfftwnd_plan \<Rightarrow> fftw_real list \<Rightarrow> fftw_real list"

section \<open>\<^verbatim>\<open>init_simulation\<close>\<close>

text \<open>
  \<^verbatim>\<open>malloc\<close> returns a block whose contents are indeterminate: \<open>malloc c len\<close> is a
  block of \<open>len\<close> elements holding whatever \<open>c\<close> says was in memory. The program
  does not check for a null result, and neither does the model.
\<close>

definition malloc :: "(nat \<Rightarrow> fftw_real) \<Rightarrow> int \<Rightarrow> fftw_real list" where
  "malloc c len = map c [0..<nat len]"

definition rfftw2d_create_plan :: "int \<Rightarrow> int \<Rightarrow> fftw_direction \<Rightarrow> rfftwnd_plan" where
  "rfftw2d_create_plan nx ny dir = Plan2d nx ny dir"

text \<open>
  The body of the initialisation loop, \<^verbatim>\<open>vx[i] = vy[i] = ... = rho0[i] = 0.0f\<close>.
\<close>

definition init_cell :: "int \<Rightarrow> sim \<Rightarrow> sim" where
  "init_cell i st =
     st\<lparr>rho0 := wr (rho0 st) i 0, rho := wr (rho st) i 0,
        fy := wr (fy st) i 0, fx := wr (fx st) i 0,
        vy0 := wr (vy0 st) i 0, vx0 := wr (vx0 st) i 0,
        vy := wr (vy st) i 0, vx := wr (vx st) i 0\<rparr>"

text \<open>
  \<open>init_simulation mem n st\<close>: \<open>mem k\<close> is the indeterminate content of the
  \<open>k\<close>-th block that \<^verbatim>\<open>malloc\<close> hands out, \<open>st\<close> the globals before the call.
  Sizes are counted in elements (the source multiplies by \<^verbatim>\<open>sizeof(fftw_real)\<close>).
\<close>

definition init_simulation :: "(nat \<Rightarrow> nat \<Rightarrow> fftw_real) \<Rightarrow> int \<Rightarrow> sim \<Rightarrow> sim" where
  "init_simulation mem n st =
     (let dim = n * 2 * (n sdiv 2 + 1);
          st = st\<lparr>vx := malloc (mem 0) dim\<rparr>;
          st = st\<lparr>vy := malloc (mem 1) dim\<rparr>;
          st = st\<lparr>vx0 := malloc (mem 2) dim\<rparr>;
          st = st\<lparr>vy0 := malloc (mem 3) dim\<rparr>;
          dim = n * n;
          st = st\<lparr>fx := malloc (mem 4) dim\<rparr>;
          st = st\<lparr>fy := malloc (mem 5) dim\<rparr>;
          st = st\<lparr>rho := malloc (mem 6) dim\<rparr>;
          st = st\<lparr>rho0 := malloc (mem 7) dim\<rparr>;
          st = st\<lparr>plan_rc := rfftw2d_create_plan n n FFTW_REAL_TO_COMPLEX\<rparr>;
          st = st\<lparr>plan_cr := rfftw2d_create_plan n n FFTW_COMPLEX_TO_REAL\<rparr>
      in for_upto 0 (n * n) init_cell st)"

text \<open>The globals as their initialisers leave them, before \<^verbatim>\<open>init_simulation\<close>.\<close>

definition startup :: sim where
  "startup = \<lparr>vx = [], vy = [], vx0 = [], vy0 = [], fx = [], fy = [], rho = [], rho0 = [],
     plan_rc = NoPlan, plan_cr = NoPlan, dt = 0.04, visc = 0.001, frozen = 0,
     redisplays = 0\<rparr>"

section \<open>\<^verbatim>\<open>FFT\<close> and \<^verbatim>\<open>clamp\<close>\<close>

definition FFT :: "fftw \<Rightarrow> sim \<Rightarrow> int \<Rightarrow> fftw_real list \<Rightarrow> fftw_real list" where
  "FFT lib st direction buf =
     (if direction = 1 then rfftwnd_one_real_to_complex lib (plan_rc st) buf
      else rfftwnd_one_complex_to_real lib (plan_cr st) buf)"

text \<open>
  \<^verbatim>\<open>int clamp(float x)\<close> is called with an \<^verbatim>\<open>fftw_real\<close>, a \<^verbatim>\<open>double\<close>: the argument is
  narrowed to \<^verbatim>\<open>float\<close> first, and \<^verbatim>\<open>1-(x)\<close> is a \<^verbatim>\<open>float\<close> subtraction.
\<close>

definition clamp :: "fftw_real \<Rightarrow> int" where
  "clamp x0 =
     (let x = to_float x0
      in if x \<ge> 0 then int_cast x else int_neg (int_cast (to_float (1 - x))))"

section \<open>\<^verbatim>\<open>solve\<close>\<close>

text \<open>Lines 134--135: the forces are added to the velocity, which is then copied.\<close>

definition add_force_cell :: "fftw_real \<Rightarrow> int \<Rightarrow> sim \<Rightarrow> sim" where
  "add_force_cell dt' i st =
     (let st = st\<lparr>vx := wr (vx st) i (rd (vx st) i + dt' * rd (vx0 st) i)\<rparr>;
          st = st\<lparr>vx0 := wr (vx0 st) i (rd (vx st) i)\<rparr>;
          st = st\<lparr>vy := wr (vy st) i (rd (vy st) i + dt' * rd (vy0 st) i)\<rparr>
      in st\<lparr>vy0 := wr (vy0 st) i (rd (vy st) i)\<rparr>)"

definition solve_add_forces :: "int \<Rightarrow> fftw_real \<Rightarrow> sim \<Rightarrow> sim" where
  "solve_add_forces n dt' st = for_upto 0 (n * n) (add_force_cell dt') st"

text \<open>Lines 139--150: the body of the velocity advection loop.\<close>

definition advect_velocity_cell ::
  "int \<Rightarrow> fftw_real \<Rightarrow> fftw_real \<Rightarrow> fftw_real \<Rightarrow> int \<Rightarrow> int \<Rightarrow> sim \<Rightarrow> sim" where
  "advect_velocity_cell n dt' x y i j st =
     (let x0 = of_int n * (x - dt' * rd (vx0 st) (i + n * j)) - 1 / 2;
          y0 = of_int n * (y - dt' * rd (vy0 st) (i + n * j)) - 1 / 2;
          i0 = clamp x0; s = x0 - of_int i0;
          i0 = (n + (i0 smod n)) smod n;
          i1 = (i0 + 1) smod n;
          j0 = clamp y0; t = y0 - of_int j0;
          j0 = (n + (j0 smod n)) smod n;
          j1 = (j0 + 1) smod n;
          st = st\<lparr>vx := wr (vx st) (i + n * j)
                 ((1 - s) * ((1 - t) * rd (vx0 st) (i0 + n * j0) + t * rd (vx0 st) (i0 + n * j1))
                  + s * ((1 - t) * rd (vx0 st) (i1 + n * j0) + t * rd (vx0 st) (i1 + n * j1)))\<rparr>
      in st\<lparr>vy := wr (vy st) (i + n * j)
               ((1 - s) * ((1 - t) * rd (vy0 st) (i0 + n * j0) + t * rd (vy0 st) (i0 + n * j1))
                + s * ((1 - t) * rd (vy0 st) (i1 + n * j0) + t * rd (vy0 st) (i1 + n * j1)))\<rparr>)"

definition solve_advect :: "int \<Rightarrow> fftw_real \<Rightarrow> sim \<Rightarrow> sim" where
  "solve_advect n dt' st =
     for_cells (1 / 2 / of_int n) 0 n
       (\<lambda>x i. for_cells (1 / 2 / of_int n) 0 n (\<lambda>y j. advect_velocity_cell n dt' x y i j)) st"

text \<open>Lines 152--154: the velocity is copied into the padded layout of the transform.\<close>

definition pad_cell :: "int \<Rightarrow> int \<Rightarrow> int \<Rightarrow> sim \<Rightarrow> sim" where
  "pad_cell n i j st =
     (let st = st\<lparr>vx0 := wr (vx0 st) (i + (n + 2) * j) (rd (vx st) (i + n * j))\<rparr>
      in st\<lparr>vy0 := wr (vy0 st) (i + (n + 2) * j) (rd (vy st) (i + n * j))\<rparr>)"

definition solve_pad :: "int \<Rightarrow> sim \<Rightarrow> sim" where
  "solve_pad n st = for_upto 0 n (\<lambda>i. for_upto 0 n (\<lambda>j. pad_cell n i j)) st"

text \<open>Lines 161--175: the update of one frequency bin.\<close>

definition spectral_bin :: "int \<Rightarrow> fftw_real \<Rightarrow> fftw_real \<Rightarrow> int \<Rightarrow> int \<Rightarrow> sim \<Rightarrow> sim" where
  "spectral_bin n visc' dt' i j st =
     (let x = 1 / 2 * of_int i;
          y = (if j \<le> n sdiv 2 then of_int j else of_int j - of_int n);
          r = x * x + y * y
      in if r = 0 then st
         else
          (let f = exp (- r * dt' * visc');
               U0 = rd (vx0 st) (i + (n + 2) * j); V0 = rd (vy0 st) (i + (n + 2) * j);
               U1 = rd (vx0 st) (i + 1 + (n + 2) * j); V1 = rd (vy0 st) (i + 1 + (n + 2) * j);
               st = st\<lparr>vx0 := wr (vx0 st) (i + (n + 2) * j)
                      (f * ((1 - x * x / r) * U0 - x * y / r * V0))\<rparr>;
               st = st\<lparr>vx0 := wr (vx0 st) (i + 1 + (n + 2) * j)
                      (f * ((1 - x * x / r) * U1 - x * y / r * V1))\<rparr>;
               st = st\<lparr>vy0 := wr (vy0 st) (i + (n + 2) * j)
                      (f * (- y * x / r * U0 + (1 - y * y / r) * V0))\<rparr>
           in st\<lparr>vy0 := wr (vy0 st) (i + 1 + (n + 2) * j)
                    (f * (- y * x / r * U1 + (1 - y * y / r) * V1))\<rparr>))"

definition solve_spectral :: "int \<Rightarrow> fftw_real \<Rightarrow> fftw_real \<Rightarrow> sim \<Rightarrow> sim" where
  "solve_spectral n visc' dt' st =
     for_by2 0 n (\<lambda>i. for_upto 0 n (\<lambda>j. spectral_bin n visc' dt' i j)) st"

text \<open>Lines 181--184: the result of the inverse transform is scaled and copied back.\<close>

definition normalize_cell :: "int \<Rightarrow> fftw_real \<Rightarrow> int \<Rightarrow> int \<Rightarrow> sim \<Rightarrow> sim" where
  "normalize_cell n f i j st =
     (let st = st\<lparr>vx := wr (vx st) (i + n * j) (f * rd (vx0 st) (i + (n + 2) * j))\<rparr>
      in st\<lparr>vy := wr (vy st) (i + n * j) (f * rd (vy0 st) (i + (n + 2) * j))\<rparr>)"

definition solve_normalize :: "int \<Rightarrow> sim \<Rightarrow> sim" where
  "solve_normalize n st =
     (let f = 1 / of_int (n * n)
      in for_upto 0 n (\<lambda>i. for_upto 0 n (\<lambda>j. normalize_cell n f i j)) st)"

text \<open>
  Lines 152--184, everything after the advection: copy into the padded layout,
  forward transform, update of the bins, inverse transform, scaling.
\<close>

definition solve_diffuse_project :: "fftw \<Rightarrow> int \<Rightarrow> fftw_real \<Rightarrow> fftw_real \<Rightarrow> sim \<Rightarrow> sim" where
  "solve_diffuse_project lib n visc' dt' st =
     (let st = solve_pad n st;
          st = st\<lparr>vx0 := FFT lib st 1 (vx0 st)\<rparr>;
          st = st\<lparr>vy0 := FFT lib st 1 (vy0 st)\<rparr>;
          st = solve_spectral n visc' dt' st;
          st = st\<lparr>vx0 := FFT lib st (- 1) (vx0 st)\<rparr>;
          st = st\<lparr>vy0 := FFT lib st (- 1) (vy0 st)\<rparr>
      in solve_normalize n st)"

definition solve :: "fftw \<Rightarrow> int \<Rightarrow> fftw_real \<Rightarrow> fftw_real \<Rightarrow> sim \<Rightarrow> sim" where
  "solve lib n visc' dt' st =
     solve_diffuse_project lib n visc' dt' (solve_advect n dt' (solve_add_forces n dt' st))"

section \<open>\<^verbatim>\<open>diffuse_matter\<close>, \<^verbatim>\<open>set_forces\<close> and \<^verbatim>\<open>do_one_simulation_step\<close>\<close>

definition diffuse_matter_cell ::
  "int \<Rightarrow> fftw_real \<Rightarrow> fftw_real \<Rightarrow> fftw_real \<Rightarrow> int \<Rightarrow> int \<Rightarrow> sim \<Rightarrow> sim" where
  "diffuse_matter_cell n dt' x y i j st =
     (let x0 = of_int n * (x - dt' * rd (vx st) (i + n * j)) - 1 / 2;
          y0 = of_int n * (y - dt' * rd (vy st) (i + n * j)) - 1 / 2;
          i0 = clamp x0;
          s = x0 - of_int i0;
          i0 = (n + (i0 smod n)) smod n;
          i1 = (i0 + 1) smod n;
          j0 = clamp y0;
          t = y0 - of_int j0;
          j0 = (n + (j0 smod n)) smod n;
          j1 = (j0 + 1) smod n
      in st\<lparr>rho := wr (rho st) (i + n * j)
               ((1 - s) * ((1 - t) * rd (rho0 st) (i0 + n * j0) + t * rd (rho0 st) (i0 + n * j1))
                + s * ((1 - t) * rd (rho0 st) (i1 + n * j0) + t * rd (rho0 st) (i1 + n * j1)))\<rparr>)"

definition diffuse_matter :: "int \<Rightarrow> fftw_real \<Rightarrow> sim \<Rightarrow> sim" where
  "diffuse_matter n dt' st =
     for_cells (1 / 2 / of_int n) 0 n
       (\<lambda>x i. for_cells (1 / 2 / of_int n) 0 n (\<lambda>y j. diffuse_matter_cell n dt' x y i j)) st"

definition set_forces_cell :: "int \<Rightarrow> sim \<Rightarrow> sim" where
  "set_forces_cell i st =
     (let st = st\<lparr>rho0 := wr (rho0 st) i (0.995 * rd (rho st) i)\<rparr>;
          st = st\<lparr>fx := wr (fx st) i (rd (fx st) i * 0.85)\<rparr>;
          st = st\<lparr>fy := wr (fy st) i (rd (fy st) i * 0.85)\<rparr>;
          st = st\<lparr>vx0 := wr (vx0 st) i (rd (fx st) i)\<rparr>
      in st\<lparr>vy0 := wr (vy0 st) i (rd (fy st) i)\<rparr>)"

definition set_forces :: "sim \<Rightarrow> sim" where
  "set_forces st = for_upto 0 (DIM * DIM) set_forces_cell st"

definition glutPostRedisplay :: "sim \<Rightarrow> sim" where
  "glutPostRedisplay st = st\<lparr>redisplays := Suc (redisplays st)\<rparr>"

definition do_one_simulation_step :: "fftw \<Rightarrow> sim \<Rightarrow> sim" where
  "do_one_simulation_step lib st =
     (if frozen st = 0
      then (let st = set_forces st;
                st = solve lib DIM (visc st) (dt st) st;
                st = diffuse_matter DIM (dt st) st
            in glutPostRedisplay st)
      else st)"

section \<open>Notions used in the statements\<close>

text \<open>
  \<open>initialized n st\<close>: the buffers have the sizes and the plans the values that
  \<^verbatim>\<open>init_simulation(n)\<close> gives them.
\<close>

definition initialized :: "int \<Rightarrow> sim \<Rightarrow> bool" where
  "initialized n st \<longleftrightarrow>
     length (vx st) = nat (n * 2 * (n sdiv 2 + 1)) \<and>
     length (vy st) = nat (n * 2 * (n sdiv 2 + 1)) \<and>
     length (vx0 st) = nat (n * 2 * (n sdiv 2 + 1)) \<and>
     length (vy0 st) = nat (n * 2 * (n sdiv 2 + 1)) \<and>
     length (fx st) = nat (n * n) \<and> length (fy st) = nat (n * n) \<and>
     length (rho st) = nat (n * n) \<and> length (rho0 st) = nat (n * n) \<and>
     plan_rc st = Plan2d n n FFTW_REAL_TO_COMPLEX \<and>
     plan_cr st = Plan2d n n FFTW_COMPLEX_TO_REAL"

text \<open>
  The advector in the words of the specification: the traced position of cell
  \<open>i\<close> along one axis, \<^emph>\<open>cell centre - dt * velocity * N, offset by -0.5\<close>, in grid
  units, and the bilinear interpolation of the four wrapped corners around a
  position, with the base cell \<open>\<lfloor>p\<rfloor>\<close>, the fractional offsets \<open>p - \<lfloor>p\<rfloor>\<close> and the
  periodic wrap \<open>mod n\<close>.
\<close>

definition traced_position :: "int \<Rightarrow> fftw_real \<Rightarrow> int \<Rightarrow> fftw_real \<Rightarrow> fftw_real" where
  "traced_position n dt' i v = (of_int i + 1 / 2) - dt' * v * of_int n - 1 / 2"

definition bilinear_sample :: "int \<Rightarrow> fftw_real list \<Rightarrow> fftw_real \<Rightarrow> fftw_real \<Rightarrow> fftw_real" where
  "bilinear_sample n src px py =
     (let bi = \<lfloor>px\<rfloor>; bj = \<lfloor>py\<rfloor>;
          s = px - of_int bi; t = py - of_int bj;
          i0 = bi mod n; i1 = (bi + 1) mod n;
          j0 = bj mod n; j1 = (bj + 1) mod n
      in (1 - s) * (1 - t) * rd src (i0 + n * j0) + s * (1 - t) * rd src (i1 + n * j0)
         + (1 - s) * t * rd src (i0 + n * j1) + s * t * rd src (i1 + n * j1))"

text \<open>
  \<open>clamp_exact x\<close>: the conversions of \<^verbatim>\<open>clamp\<close> lose nothing at \<open>x\<close>. The position is
  a \<^verbatim>\<open>float\<close>, so is \<open>1 - x\<close> when \<^verbatim>\<open>clamp\<close> computes it, and the casts stay within
  the range of \<^verbatim>\<open>int\<close>.
\<close>

definition clamp_exact :: "real \<Rightarrow> bool" where
  "clamp_exact x \<longleftrightarrow>
     to_float x = x \<and> (x < 0 \<longrightarrow> to_float (1 - x) = 1 - x) \<and> - (2 ^ 31) + 1 < x \<and> x < 2 ^ 31"

text \<open>
  Lines 142--148, which the three interpolations of the program share (for \<open>vx\<close>,
  \<open>vy\<close> and \<open>rho\<close>): the value interpolated from the buffer \<open>src\<close> at the traced
  position \<open>(x0, y0)\<close>, with the base cell and the offsets that \<^verbatim>\<open>clamp\<close> gives.
\<close>

definition corner_interpolation ::
  "int \<Rightarrow> fftw_real list \<Rightarrow> fftw_real \<Rightarrow> fftw_real \<Rightarrow> fftw_real" where
  "corner_interpolation n src x0 y0 =
     (let i0 = clamp x0; s = x0 - of_int i0;
          i0 = (n + (i0 smod n)) smod n;
          i1 = (i0 + 1) smod n;
          j0 = clamp y0; t = y0 - of_int j0;
          j0 = (n + (j0 smod n)) smod n;
          j1 = (j0 + 1) smod n
      in (1 - s) * ((1 - t) * rd src (i0 + n * j0) + t * rd src (i0 + n * j1))
         + s * ((1 - t) * rd src (i1 + n * j0) + t * rd src (i1 + n * j1)))"

text \<open>
  The mean of a field over the \<open>n \<times> n\<close> grid, in the compact layout (row stride
  \<open>n\<close>), and the sum of a field held in the padded layout of the transform (row
  stride \<open>n + 2\<close>).
\<close>

definition grid_sum :: "int \<Rightarrow> int \<Rightarrow> fftw_real list \<Rightarrow> fftw_real" where
  "grid_sum n stride a =
     (\<Sum>j = 0..<nat n. \<Sum>i = 0..<nat n. rd a (int i + stride * int j))"

definition grid_mean :: "int \<Rightarrow> fftw_real list \<Rightarrow> fftw_real" where
  "grid_mean n a = grid_sum n n a / of_int (n * n)"

text \<open>
  What the theorem on the mean velocity asks of the transform library, for the
  plans of an \<open>n \<times> n\<close> grid and buffers in the padded layout: both transforms work
  in place (the buffer keeps its size); the forward transform leaves the sum of
  the field in the real part of the zero-frequency coefficient (element 0) and 0
  in its imaginary part (element 1); the inverse transform, which is not
  normalised, returns a field whose sum is \<open>n\<^sup>2\<close> times that coefficient.
\<close>

definition fftw_dc :: "fftw \<Rightarrow> int \<Rightarrow> bool" where
  "fftw_dc lib n \<longleftrightarrow>
     (\<forall>b. length b = nat (n * (n + 2)) \<longrightarrow>
          length (rfftwnd_one_real_to_complex lib (Plan2d n n FFTW_REAL_TO_COMPLEX) b) = length b \<and>
          rd (rfftwnd_one_real_to_complex lib (Plan2d n n FFTW_REAL_TO_COMPLEX) b) 0
            = grid_sum n (n + 2) b \<and>
          rd (rfftwnd_one_real_to_complex lib (Plan2d n n FFTW_REAL_TO_COMPLEX) b) 1 = 0) \<and>
     (\<forall>c. length c = nat (n * (n + 2)) \<and> rd c 1 = 0 \<longrightarrow>
          length (rfftwnd_one_complex_to_real lib (Plan2d n n FFTW_COMPLEX_TO_REAL) c) = length c \<and>
          grid_sum n (n + 2) (rfftwnd_one_complex_to_real lib (Plan2d n n FFTW_COMPLEX_TO_REAL) c)
            = of_int (n * n) * rd c 0)"

text \<open>
  A state of a \<open>2 \<times> 2\<close> grid, as \<^verbatim>\<open>init_simulation(2)\<close> sizes it, with values in the
  buffers: the theorems below are applied to it.
\<close>

definition example_state :: sim where
  "example_state =
     \<lparr>vx = [1 / 4, 1 / 4, 1 / 4, 1 / 4, 0, 0, 0, 0], vy = [0, 0, 0, 0, 0, 0, 0, 0],
      vx0 = [1, 2, 3, 4, 0, 0, 0, 0], vy0 = [0, 0, 0, 0, 0, 0, 0, 0],
      fx = [0, 0, 0, 0], fy = [0, 0, 0, 0], rho = [0, 0, 0, 0], rho0 = [1, 2, 3, 4],
      plan_rc = Plan2d 2 2 FFTW_REAL_TO_COMPLEX, plan_cr = Plan2d 2 2 FFTW_COMPLEX_TO_REAL,
      dt = 0.04, visc = 0.001, frozen = 0, redisplays = 0\<rparr>"

text \<open>
  The transform pair of a \<open>2 \<times> 2\<close> grid, written out: the discrete Fourier transform
  of the four values \<open>b\<^sub>0, b\<^sub>1, b\<^sub>4, b\<^sub>5\<close> of the padded layout (all its coefficients
  are real) and the inverse transform without normalisation. It stands for the
  library where the theorem on the mean velocity is applied to \<open>example_state\<close>.
\<close>

definition example_fftw :: fftw where
  "example_fftw =
     \<lparr>rfftwnd_one_real_to_complex = (\<lambda>p b.
        [b ! 0 + b ! 1 + b ! 4 + b ! 5, 0, b ! 0 - b ! 1 + b ! 4 - b ! 5, 0,
         b ! 0 + b ! 1 - b ! 4 - b ! 5, 0, b ! 0 - b ! 1 - b ! 4 + b ! 5, 0]),
      rfftwnd_one_complex_to_real = (\<lambda>p c.
        [c ! 0 + c ! 2 + c ! 4 + c ! 6, c ! 0 - c ! 2 + c ! 4 - c ! 6, 0, 0,
         c ! 0 + c ! 2 - c ! 4 - c ! 6, c ! 0 - c ! 2 - c ! 4 + c ! 6, 0, 0])\<rparr>"

text \<open>The folded wavenumber of row \<open>j\<close>, as line 164 computes it.\<close>

definition wavenumber_y :: "int \<Rightarrow> int \<Rightarrow> fftw_real" where
  "wavenumber_y n j = (if j \<le> n sdiv 2 then of_int j else of_int j - of_int n)"

section \<open>Buffers and loops\<close>

lemma rd_wr: "0 \<le> k' \<Longrightarrow> rd (wr a k v) k' = (if k = k' \<and> nat k < length a then v else rd a k')"
  by (cases "nat k < length a") (auto simp: rd_def wr_def nth_list_update list_update_beyond)

lemma length_wr [simp]: "length (wr a k v) = length a"
  by (simp add: wr_def)

lemma for_upto_stop: "\<not> i < n \<Longrightarrow> for_upto i n body s = s"
  by (simp add: for_upto.simps)

lemma for_upto_step: "i < n \<Longrightarrow> for_upto i n body s = for_upto (i + 1) n body (body i s)"
  by (subst for_upto.simps) simp

lemma for_upto_pointwise:
  fixes view :: "'s \<Rightarrow> 'p \<Rightarrow> 'v"
  assumes inv: "Inv s"
    and pres: "\<And>k t. i \<le> k \<Longrightarrow> k < n \<Longrightarrow> Inv t \<Longrightarrow> Inv (body k t)"
    and upd: "\<And>k t p. i \<le> k \<Longrightarrow> k < n \<Longrightarrow> Inv t \<Longrightarrow>
        view (body k t) p = (if key p = k then G p (view t p) else view t p)"
  shows "Inv (for_upto i n body s) \<and>
    (\<forall>p. view (for_upto i n body s) p =
       (if i \<le> key p \<and> key p < n then G p (view s p) else view s p))"
  using assms
proof (induction i n body s rule: for_upto.induct)
  case (1 i n body s)
  show ?case
  proof (cases "i < n")
    case True
    have a: "Inv (body i s)" using "1.prems" True by simp
    have IH: "Inv (for_upto (i + 1) n body (body i s)) \<and>
    (\<forall>p. view (for_upto (i + 1) n body (body i s)) p =
       (if i + 1 \<le> key p \<and> key p < n then G p (view (body i s) p) else view (body i s) p))"
      apply (rule "1.IH" [OF True a])
      using "1.prems"(2) apply simp
      using "1.prems"(3) apply simp
      done
    have b: "view (body i s) p = (if key p = i then G p (view s p) else view s p)" for p
      using "1.prems"(3) [of i s p] True "1.prems"(1) by simp
    show ?thesis
      using IH True by (auto simp: for_upto_step b)
  next
    case False
    then show ?thesis using "1.prems"(1) by (auto simp: for_upto_stop)
  qed
qed

lemma for_upto2_pointwise:
  fixes view :: "'s \<Rightarrow> int \<times> int \<Rightarrow> 'v"
  assumes inv: "Inv s"
    and pres: "\<And>i j t. 0 \<le> i \<Longrightarrow> i < n \<Longrightarrow> 0 \<le> j \<Longrightarrow> j < m \<Longrightarrow> Inv t \<Longrightarrow> Inv (body i j t)"
    and upd: "\<And>i j t p. 0 \<le> i \<Longrightarrow> i < n \<Longrightarrow> 0 \<le> j \<Longrightarrow> j < m \<Longrightarrow> Inv t \<Longrightarrow>
        view (body i j t) p = (if p = (i, j) then F p (view t p) else view t p)"
  shows "Inv (for_upto 0 n (\<lambda>i. for_upto 0 m (body i)) s) \<and>
    (\<forall>p. view (for_upto 0 n (\<lambda>i. for_upto 0 m (body i)) s) p =
       (if 0 \<le> fst p \<and> fst p < n \<and> 0 \<le> snd p \<and> snd p < m then F p (view s p) else view s p))"
proof -
  have inner: "Inv (for_upto 0 m (body i) t) \<and>
      (\<forall>p. view (for_upto 0 m (body i) t) p =
         (if 0 \<le> snd p \<and> snd p < m then (if fst p = i then F p (view t p) else view t p)
          else view t p))"
    if i: "0 \<le> i" "i < n" and t: "Inv t" for i t
  proof (rule for_upto_pointwise [where key = snd and G = "\<lambda>p v. if fst p = i then F p v else v"])
    show "Inv t" by (rule t)
  next
    fix k u assume "0 \<le> k" "k < m" "Inv u"
    then show "Inv (body i k u)" using pres i by simp
  next
    fix k u p assume "0 \<le> k" "k < m" "Inv u"
    then have "view (body i k u) p = (if p = (i, k) then F p (view u p) else view u p)"
      using upd i by simp
    then show "view (body i k u) p =
        (if snd p = k then if fst p = i then F p (view u p) else view u p else view u p)"
      by (cases p) auto
  qed
  have "Inv (for_upto 0 n (\<lambda>i. for_upto 0 m (body i)) s) \<and>
    (\<forall>p. view (for_upto 0 n (\<lambda>i. for_upto 0 m (body i)) s) p =
       (if 0 \<le> fst p \<and> fst p < n
        then (if 0 \<le> snd p \<and> snd p < m then F p (view s p) else view s p) else view s p))"
  proof (rule for_upto_pointwise [where key = fst
        and G = "\<lambda>p v. if 0 \<le> snd p \<and> snd p < m then F p v else v"])
    show "Inv s" by (rule inv)
  next
    fix k u assume "0 \<le> k" "k < n" "Inv u"
    then show "Inv (for_upto 0 m (body k) u)" using inner by simp
  next
    fix k u p assume "0 \<le> k" "k < n" "Inv u"
    then show "view (for_upto 0 m (body k) u) p =
        (if fst p = k then if 0 \<le> snd p \<and> snd p < m then F p (view u p) else view u p
         else view u p)"
      using inner [of k u] by (cases p) auto
  qed
  then show ?thesis by simp
qed

lemma for_upto_preserves:
  assumes "\<And>k t. i \<le> k \<Longrightarrow> k < n \<Longrightarrow> f (body k t) = f t"
  shows "f (for_upto i n body s) = f s"
  using for_upto_pointwise [where Inv = "\<lambda>t. f t = f s" and view = "\<lambda>t (p::unit). ()"
      and key = "\<lambda>p. 0" and G = "\<lambda>p v. v" and i = i and n = n and body = body and s = s]
    assms by simp

section \<open>\<^verbatim>\<open>do_one_simulation_step\<close> while the animation is frozen\<close>

text \<open>
  Claim C7. When \<open>frozen\<close> is set, \<^verbatim>\<open>do_one_simulation_step\<close> changes nothing:
  every buffer (\<open>vx\<close>, \<open>vy\<close>, \<open>vx0\<close>, \<open>vy0\<close>, \<open>fx\<close>, \<open>fy\<close>, \<open>rho\<close>, \<open>rho0\<close>), the plans,
  \<open>dt\<close>, \<open>visc\<close> and \<open>frozen\<close> are as before the call, and no redisplay is posted.
\<close>

theorem frozen_step_is_noop:
  "frozen st \<noteq> 0 \<Longrightarrow> do_one_simulation_step lib st = st"
  by (simp add: do_one_simulation_step_def)

theorem frozen_step_is_noop_witness:
  "frozen (startup\<lparr>frozen := 1\<rparr>) \<noteq> 0 \<and>
   do_one_simulation_step
     \<lparr>rfftwnd_one_real_to_complex = (\<lambda>p b. b), rfftwnd_one_complex_to_real = (\<lambda>p b. b)\<rparr>
     (startup\<lparr>frozen := 1\<rparr>) = startup\<lparr>frozen := 1\<rparr>"
proof -
  have h: "frozen (startup\<lparr>frozen := 1\<rparr>) \<noteq> 0" by simp
  show ?thesis using h frozen_step_is_noop [OF h] by simp
qed

section \<open>\<^verbatim>\<open>set_forces\<close>\<close>

lemma set_forces_cells:
  assumes len: "initialized DIM st"
  shows "(\<forall>i. 0 \<le> i \<and> i < DIM * DIM \<longrightarrow>
      rd (rho0 (set_forces st)) i = 0.995 * rd (rho st) i \<and>
      rd (fx (set_forces st)) i = rd (fx st) i * 0.85 \<and>
      rd (fy (set_forces st)) i = rd (fy st) i * 0.85 \<and>
      rd (vx0 (set_forces st)) i = rd (fx st) i * 0.85 \<and>
      rd (vy0 (set_forces st)) i = rd (fy st) i * 0.85)"
proof -
  define Inv where "Inv t \<longleftrightarrow> rho t = rho st \<and> length (rho0 t) = 2500 \<and> length (fx t) = 2500 \<and>
    length (fy t) = 2500 \<and> length (vx0 t) = 2600 \<and> length (vy0 t) = 2600" for t :: sim
  define view where "view t p = (if 0 \<le> p then
    (rd (rho0 t) p, rd (fx t) p, rd (fy t) p, rd (vx0 t) p, rd (vy0 t) p) else (0, 0, 0, 0, 0))"
    for t :: sim and p
  define G where "G p v = (case v of (a, b, c, d, e) \<Rightarrow>
    (if 0 \<le> p then (0.995 * rd (rho st) p, b * 0.85, c * 0.85, b * 0.85, c * 0.85) else v))"
    for p :: int and v :: "real \<times> real \<times> real \<times> real \<times> real"
  have inv: "Inv st"
    using len by (simp add: Inv_def initialized_def DIM_def signed_divide_int_def)
  have pres: "Inv (set_forces_cell k t)" if "Inv t" for k t
    using that by (simp add: Inv_def set_forces_cell_def Let_def)
  have upd: "view (set_forces_cell k t) p = (if id p = k then G p (view t p) else view t p)"
    if "0 \<le> k" "k < DIM * DIM" "Inv t" for k t p
  proof -
    have "nat k < 2500" "nat k < 2600"
      using that by (simp_all add: DIM_def)
    then show ?thesis
      using that by (simp add: view_def G_def set_forces_cell_def Let_def rd_wr Inv_def)
  qed
  have "Inv (for_upto 0 (DIM * DIM) set_forces_cell st) \<and>
    (\<forall>p. view (for_upto 0 (DIM * DIM) set_forces_cell st) p =
       (if 0 \<le> id p \<and> id p < DIM * DIM then G p (view st p) else view st p))"
    by (rule for_upto_pointwise [where Inv = Inv and view = view and key = id and G = G])
      (simp_all add: inv pres upd)
  then have "view (set_forces st) p = G p (view st p)" if "0 \<le> p" "p < DIM * DIM" for p
    using that by (simp add: set_forces_def)
  then show ?thesis
    by (simp add: view_def G_def)
qed

text \<open>
  Claim C6. One call of \<^verbatim>\<open>set_forces\<close> sets, at every cell \<open>i\<close> of the grid, the
  density scratch \<open>rho0\<close> to 0.995 times the density \<open>rho\<close>, multiplies both force
  components by 0.85 and copies the decayed forces into the velocity scratch
  buffers \<open>vx0\<close>, \<open>vy0\<close>. From density 10 and force (0.2, 0.2) at the cell this gives
  density scratch 9.95 and force (0.17, 0.17).
\<close>

theorem set_forces_decay:
  assumes "initialized DIM st" and "0 \<le> i" and "i < DIM * DIM"
  shows "rd (rho0 (set_forces st)) i = 0.995 * rd (rho st) i \<and>
      rd (fx (set_forces st)) i = 0.85 * rd (fx st) i \<and>
      rd (fy (set_forces st)) i = 0.85 * rd (fy st) i \<and>
      rd (vx0 (set_forces st)) i = rd (fx (set_forces st)) i \<and>
      rd (vy0 (set_forces st)) i = rd (fy (set_forces st)) i \<and>
      (rd (rho st) i = 10 \<and> rd (fx st) i = 0.2 \<and> rd (fy st) i = 0.2 \<longrightarrow>
         rd (rho0 (set_forces st)) i = 9.95 \<and>
         rd (fx (set_forces st)) i = 0.17 \<and> rd (fy (set_forces st)) i = 0.17)"
proof -
  have "rd (rho0 (set_forces st)) i = 0.995 * rd (rho st) i \<and>
      rd (fx (set_forces st)) i = rd (fx st) i * 0.85 \<and>
      rd (fy (set_forces st)) i = rd (fy st) i * 0.85 \<and>
      rd (vx0 (set_forces st)) i = rd (fx st) i * 0.85 \<and>
      rd (vy0 (set_forces st)) i = rd (fy st) i * 0.85"
    using set_forces_cells [OF assms(1)] assms(2,3) by blast
  then show ?thesis by auto
qed

lemma initialized_init_simulation:
  "0 \<le> n \<Longrightarrow> initialized n (init_simulation mem n st)"
proof -
  define Inv where "Inv t \<longleftrightarrow> initialized n t" for t :: sim
  have "Inv (for_upto 0 (n * n) init_cell s)" if "Inv s" for s
    using for_upto_pointwise [where Inv = Inv and view = "\<lambda>t (p::unit). ()"
      and key = "\<lambda>p. 0" and G = "\<lambda>p v. v" and i = 0 and n = "n * n" and body = init_cell and s = s]
      that by (simp add: Inv_def initialized_def init_cell_def)
  then show ?thesis
    by (simp add: init_simulation_def Let_def Inv_def initialized_def malloc_def
        rfftw2d_create_plan_def)
qed

theorem set_forces_decay_witness:
  "initialized DIM (init_simulation (\<lambda>k i. 0) DIM startup\<lparr>rho := replicate 2500 10,
       fx := replicate 2500 0.2, fy := replicate 2500 0.2\<rparr>) \<and> (0::int) \<le> 7 \<and> 7 < DIM * DIM \<and>
   rd (rho0 (set_forces (init_simulation (\<lambda>k i. 0) DIM startup\<lparr>rho := replicate 2500 10,
       fx := replicate 2500 0.2, fy := replicate 2500 0.2\<rparr>))) 7 = 9.95 \<and>
   rd (fx (set_forces (init_simulation (\<lambda>k i. 0) DIM startup\<lparr>rho := replicate 2500 10,
       fx := replicate 2500 0.2, fy := replicate 2500 0.2\<rparr>))) 7 = 0.17 \<and>
   rd (vy0 (set_forces (init_simulation (\<lambda>k i. 0) DIM startup\<lparr>rho := replicate 2500 10,
       fx := replicate 2500 0.2, fy := replicate 2500 0.2\<rparr>))) 7 = 0.17"
proof -
  let ?st = "init_simulation (\<lambda>k i. 0) DIM startup\<lparr>rho := replicate 2500 10,
       fx := replicate 2500 0.2, fy := replicate 2500 0.2\<rparr>"
  have "initialized DIM (init_simulation (\<lambda>k i. 0) DIM startup)"
    by (rule initialized_init_simulation) (simp add: DIM_def)
  then have a: "initialized DIM ?st"
    by (simp add: initialized_def DIM_def)
  have b: "(0::int) \<le> 7" and c: "7 < DIM * DIM" by (simp_all add: DIM_def)
  have d: "rd (rho ?st) 7 = 10 \<and> rd (fx ?st) 7 = 0.2 \<and> rd (fy ?st) 7 = 0.2"
    by (simp add: rd_def)
  show ?thesis
    using a b c d set_forces_decay [OF a b c] by simp
qed

section \<open>\<^verbatim>\<open>init_simulation\<close>\<close>

lemma rd_malloc: "0 \<le> k \<Longrightarrow> k < len \<Longrightarrow> rd (malloc c len) k = c (nat k)"
  by (simp add: rd_def malloc_def)

lemma init_simulation_cells:
  assumes n: "0 \<le> n" and p: "0 \<le> p"
  shows "(rd (vx (init_simulation mem n st)) p, rd (vy (init_simulation mem n st)) p,
      rd (vx0 (init_simulation mem n st)) p, rd (vy0 (init_simulation mem n st)) p,
      rd (fx (init_simulation mem n st)) p, rd (fy (init_simulation mem n st)) p,
      rd (rho (init_simulation mem n st)) p, rd (rho0 (init_simulation mem n st)) p)
    = (if p < n * n then (0, 0, 0, 0, 0, 0, 0, 0)
       else (rd (malloc (mem 0) (n * 2 * (n sdiv 2 + 1))) p,
             rd (malloc (mem 1) (n * 2 * (n sdiv 2 + 1))) p,
             rd (malloc (mem 2) (n * 2 * (n sdiv 2 + 1))) p,
             rd (malloc (mem 3) (n * 2 * (n sdiv 2 + 1))) p,
             rd (malloc (mem 4) (n * n)) p, rd (malloc (mem 5) (n * n)) p,
             rd (malloc (mem 6) (n * n)) p, rd (malloc (mem 7) (n * n)) p))"
proof -
  define s0 where "s0 = st\<lparr>vx := malloc (mem 0) (n * 2 * (n sdiv 2 + 1)),
    vy := malloc (mem 1) (n * 2 * (n sdiv 2 + 1)), vx0 := malloc (mem 2) (n * 2 * (n sdiv 2 + 1)),
    vy0 := malloc (mem 3) (n * 2 * (n sdiv 2 + 1)), fx := malloc (mem 4) (n * n),
    fy := malloc (mem 5) (n * n), rho := malloc (mem 6) (n * n), rho0 := malloc (mem 7) (n * n),
    plan_rc := rfftw2d_create_plan n n FFTW_REAL_TO_COMPLEX,
    plan_cr := rfftw2d_create_plan n n FFTW_COMPLEX_TO_REAL\<rparr>"
  have eq: "init_simulation mem n st = for_upto 0 (n * n) init_cell s0"
    by (simp add: init_simulation_def Let_def s0_def)
  define Inv where "Inv t \<longleftrightarrow> initialized n t" for t :: sim
  define view where "view t q = (if 0 \<le> q then
      (rd (vx t) q, rd (vy t) q, rd (vx0 t) q, rd (vy0 t) q,
       rd (fx t) q, rd (fy t) q, rd (rho t) q, rd (rho0 t) q)
      else (0, 0, 0, 0, 0, 0, 0, 0))" for t :: sim and q
  define G where "G q v = (if 0 \<le> q then (0, 0, 0, 0, 0, 0, 0, 0) else v)"
    for q :: int and v :: "real \<times> real \<times> real \<times> real \<times> real \<times> real \<times> real \<times> real"
  have big: "n * n \<le> n * 2 * (n sdiv 2 + 1)"
  proof -
    have "n sdiv 2 = n div 2" using n by (simp add: signed_divide_int_def sgn_if)
    then have "n \<le> 2 * (n sdiv 2 + 1)" by simp
    then have "n * n \<le> n * (2 * (n sdiv 2 + 1))" using n by (rule mult_left_mono)
    then show ?thesis by (simp add: mult.assoc)
  qed
  have inv: "Inv s0"
    by (simp add: Inv_def s0_def initialized_def malloc_def rfftw2d_create_plan_def)
  have pres: "Inv (init_cell k t)" if "Inv t" for k t
    using that by (simp add: Inv_def initialized_def init_cell_def)
  have upd: "view (init_cell k t) q = (if id q = k then G q (view t q) else view t q)"
    if "0 \<le> k" "k < n * n" "Inv t" for k t q
  proof -
    have "nat k < nat (n * n)" using that by simp
    moreover have "nat k < nat (n * 2 * (n sdiv 2 + 1))" using that big by simp
    ultimately show ?thesis
      using that by (simp add: view_def G_def init_cell_def rd_wr Inv_def initialized_def)
  qed
  have "Inv (for_upto 0 (n * n) init_cell s0) \<and>
    (\<forall>q. view (for_upto 0 (n * n) init_cell s0) q =
       (if 0 \<le> id q \<and> id q < n * n then G q (view s0 q) else view s0 q))"
    by (rule for_upto_pointwise [where Inv = Inv and view = view and key = id and G = G])
      (simp_all add: inv pres upd)
  then have "view (init_simulation mem n st) p = (if p < n * n then G p (view s0 p) else view s0 p)"
    using p by (simp add: eq)
  then show ?thesis
    using p by (simp add: view_def G_def s0_def)
qed

text \<open>
  Claim C8. After \<^verbatim>\<open>init_simulation(n)\<close> every element of every allocated buffer
  should be zero, the padded extent \<open>n * 2 * (n / 2 + 1)\<close> of the velocity buffers
  included. The loop of the program stops at \<open>n * n\<close>: for the grid size \<open>DIM\<close> of
  the program, the elements 2500 to 2599 of \<open>vx\<close>, \<open>vy\<close>, \<open>vx0\<close> and \<open>vy0\<close> keep what
  \<^verbatim>\<open>malloc\<close> left in them, here the value 1.
\<close>

theorem init_simulation_padding_not_zeroed:
  "rd (vx (init_simulation (\<lambda>k i. 1) DIM startup)) 2500 = 1 \<and>
   rd (vy (init_simulation (\<lambda>k i. 1) DIM startup)) 2500 = 1 \<and>
   rd (vx0 (init_simulation (\<lambda>k i. 1) DIM startup)) 2599 = 1 \<and>
   rd (vy0 (init_simulation (\<lambda>k i. 1) DIM startup)) 2599 = 1 \<and>
   length (vx (init_simulation (\<lambda>k i. 1) DIM startup)) = 2600 \<and>
   rd (vx (init_simulation (\<lambda>k i. 1) DIM startup)) 2499 = 0"
proof -
  have n: "(0::int) \<le> DIM" by (simp add: DIM_def)
  have a: "rd (vx (init_simulation (\<lambda>k i. 1) DIM startup)) 2500 = 1 \<and>
      rd (vy (init_simulation (\<lambda>k i. 1) DIM startup)) 2500 = 1"
    using init_simulation_cells [OF n, of 2500 "\<lambda>k i. 1" startup]
    by (simp add: DIM_def rd_malloc signed_divide_int_def)
  have b: "rd (vx0 (init_simulation (\<lambda>k i. 1) DIM startup)) 2599 = 1 \<and>
      rd (vy0 (init_simulation (\<lambda>k i. 1) DIM startup)) 2599 = 1"
    using init_simulation_cells [OF n, of 2599 "\<lambda>k i. 1" startup]
    by (simp add: DIM_def rd_malloc signed_divide_int_def)
  have c: "rd (vx (init_simulation (\<lambda>k i. 1) DIM startup)) 2499 = 0"
    using init_simulation_cells [OF n, of 2499 "\<lambda>k i. 1" startup]
    by (simp add: DIM_def)
  have d: "length (vx (init_simulation (\<lambda>k i. 1) DIM startup)) = 2600"
    using initialized_init_simulation [OF n, of "\<lambda>k i. 1" startup]
    by (simp add: initialized_def DIM_def signed_divide_int_def)
  show ?thesis using a b c d by simp
qed

section \<open>The conversions in \<^verbatim>\<open>clamp\<close>\<close>

lemma float_exponent_eq:
  assumes "2 powr of_int e \<le> \<bar>x\<bar>" and "\<bar>x\<bar> < 2 powr of_int (e + 1)" and "- 126 \<le> e"
  shows "float_exponent x = e"
proof -
  have pos: "0 < \<bar>x\<bar>" using assms(1) by (smt (verit) powr_gt_zero)
  have "of_int e \<le> log 2 \<bar>x\<bar>" using assms(1) pos by (simp add: le_log_iff)
  moreover have "log 2 \<bar>x\<bar> < of_int e + 1" using assms(2) pos by (simp add: log_less_iff)
  ultimately have "\<lfloor>log 2 \<bar>x\<bar>\<rfloor> = e" by (simp add: floor_unique)
  then show ?thesis using assms(3) by (simp add: float_exponent_def)
qed

lemma round_to_even_of_int [simp]: "round_to_even (of_int m) = m"
  by (simp add: round_to_even_def)

lemma to_float_0 [simp]: "to_float 0 = 0"
  by (simp add: to_float_def)

lemma to_float_binade:
  assumes "2 powr of_int e \<le> \<bar>x\<bar>" and "\<bar>x\<bar> < 2 powr of_int (e + 1)" and "- 126 \<le> e"
  shows "to_float x = of_int (round_to_even (x / 2 powr of_int (e - 23))) * 2 powr of_int (e - 23)"
proof -
  have "x \<noteq> 0" using assms(1) by (smt (verit) powr_gt_zero)
  then show ?thesis
    by (simp add: to_float_def float_exponent_eq [OF assms])
qed

lemma to_float_exact:
  assumes "2 powr of_int e \<le> \<bar>x\<bar>" and "\<bar>x\<bar> < 2 powr of_int (e + 1)" and "- 126 \<le> e"
    and "x = of_int m * 2 powr of_int (e - 23)"
  shows "to_float x = x"
proof -
  have "x / 2 powr of_int (e - 23) = of_int m"
    by (subst assms(4)) simp
  then show ?thesis
    using to_float_binade [OF assms(1-3)] assms(4) by simp
qed

lemma to_float_values:
  "to_float (- 1) = - 1" "to_float 1 = 1" "to_float 2 = 2" "to_float (7 / 2) = 7 / 2"
  "to_float (251 / 2) = 251 / 2" "to_float 3000000000 = 3000000000"
proof -
  show "to_float (- 1) = - 1"
    by (rule to_float_exact [where e = 0 and m = "- (2 ^ 23)"]) (simp_all add: powr_neg_numeral)
  show "to_float 1 = 1"
    by (rule to_float_exact [where e = 0 and m = "2 ^ 23"]) (simp_all add: powr_neg_numeral)
  show "to_float 2 = 2"
    by (rule to_float_exact [where e = 1 and m = "2 ^ 23"]) (simp_all add: powr_neg_numeral)
  show "to_float (7 / 2) = 7 / 2"
    by (rule to_float_exact [where e = 1 and m = "7 * 2 ^ 21"]) (simp_all add: powr_neg_numeral)
  show "to_float (251 / 2) = 251 / 2"
    by (rule to_float_exact [where e = 6 and m = "251 * 2 ^ 16"]) (simp_all add: powr_neg_numeral)
  show "to_float 3000000000 = 3000000000"
    by (rule to_float_exact [where e = 31 and m = "11718750"]) (simp_all add: powr_neg_numeral)
qed

lemma to_float_below_1:
  "to_float (1 - 1 / 2 ^ 32) = 1" "to_float (1 - 1 / 2 ^ 31) = 1"
proof -
  have "to_float (1 - 1 / 2 ^ 32)
      = of_int (round_to_even ((1 - 1 / 2 ^ 32) / 2 powr of_int (- 1 - 23))) * 2 powr of_int (- 1 - 23)"
    by (rule to_float_binade) (simp_all add: powr_neg_numeral)
  also have "\<dots> = 1"
    by (simp add: round_to_even_def Let_def powr_neg_numeral)
  finally show "to_float (1 - 1 / 2 ^ 32) = 1" .
  have "to_float (1 - 1 / 2 ^ 31)
      = of_int (round_to_even ((1 - 1 / 2 ^ 31) / 2 powr of_int (- 1 - 23))) * 2 powr of_int (- 1 - 23)"
    by (rule to_float_binade) (simp_all add: powr_neg_numeral)
  also have "\<dots> = 1"
    by (simp add: round_to_even_def Let_def powr_neg_numeral)
  finally show "to_float (1 - 1 / 2 ^ 31) = 1" .
qed

lemma clamp_values:
  "clamp (- 1) = - 2" "clamp (251 / 2) = 125" "clamp (7 / 2) = 3" "clamp 0 = 0"
  "clamp 3000000000 = - 2147483648"
  by (simp_all add: clamp_def Let_def to_float_values int_cast_def int_neg_def)

lemma clamp_below_1:
  "clamp (1 - 1 / 2 ^ 32) = 1" "clamp (1 - 1 / 2 ^ 31) = 1"
  unfolding clamp_def Let_def to_float_below_1 by (simp_all add: int_cast_def)

section \<open>Index arithmetic of the advection\<close>

lemma smod_nonneg: "0 \<le> a \<Longrightarrow> 0 < n \<Longrightarrow> a smod n = a mod (n::int)"
  by (simp add: signed_modulo_int_def sgn_if)

lemma smod_bounds:
  assumes "0 < (n::int)"
  shows "- n < a smod n" and "a smod n < n"
  using smod_int_range [where a = a and b = n] assms by auto

lemma smod_cong_mod: "0 < (n::int) \<Longrightarrow> (a smod n) mod n = a mod n"
proof (cases "0 \<le> a")
  case True
  assume "0 < n"
  then show ?thesis using True by (simp add: smod_nonneg)
next
  case False
  assume n: "0 < n"
  have "a smod n = - ((- a) mod n)"
    using False n by (simp add: signed_modulo_int_def sgn_if)
  then have "(a smod n) mod n = (- ((- a) mod n)) mod n" by simp
  also have "\<dots> = (- (- a)) mod n" by (rule mod_minus_eq)
  finally show ?thesis by simp
qed

lemma wrap_eq_mod:
  assumes "0 < (n::int)"
  shows "(n + (a smod n)) smod n = a mod n"
proof -
  have "0 \<le> n + (a smod n)" using smod_bounds(1) [OF assms, of a] by simp
  then have "(n + (a smod n)) smod n = (n + (a smod n)) mod n"
    using assms by (simp add: smod_nonneg)
  also have "\<dots> = (a smod n) mod n" by simp
  also have "\<dots> = a mod n" by (rule smod_cong_mod [OF assms])
  finally show ?thesis .
qed

lemma next_eq_mod:
  assumes "0 < (n::int)"
  shows "(a mod n + 1) smod n = (a + 1) mod n"
proof -
  have "0 \<le> a mod n + 1" using assms by (simp add: add_nonneg_nonneg)
  then have "(a mod n + 1) smod n = (a mod n + 1) mod n"
    using assms by (simp add: smod_nonneg)
  then show ?thesis by (simp add: mod_add_left_eq)
qed

lemma flat_index_bounds:
  assumes "0 \<le> a" "a < (n::int)" "0 \<le> b" "b < n"
  shows "0 \<le> a + n * b" and "a + n * b < n * n"
proof -
  show "0 \<le> a + n * b" using assms by simp
  have "b + 1 \<le> n" using assms by simp
  then have "n * (b + 1) \<le> n * n" using assms by (intro mult_left_mono) auto
  then show "a + n * b < n * n" using assms by (simp add: algebra_simps)
qed

text \<open>
  Claim C10. For every grid size \<open>n > 0\<close> and every base index that \<^verbatim>\<open>clamp\<close>
  produces, of either sign, the wrapped indices \<^verbatim>\<open>(n+(i0%n))%n\<close> and
  \<^verbatim>\<open>(that+1)%n\<close> lie in \<open>[0, n-1]\<close>, so the four corner lookups
  \<^verbatim>\<open>i0+n*j0\<close>, \<^verbatim>\<open>i0+n*j1\<close>, \<^verbatim>\<open>i1+n*j0\<close>, \<^verbatim>\<open>i1+n*j1\<close> address elements of the
  \<open>n \<times> n\<close> buffer, as does the index \<^verbatim>\<open>i+n*j\<close> of the cell itself. The intermediate values \<^verbatim>\<open>i0%n\<close> and \<^verbatim>\<open>n+(i0%n)\<close> stay
  between \<open>-n\<close> and \<open>2n\<close>.
\<close>

theorem advection_indices_in_bounds:
  assumes "0 < n" and "0 \<le> i" and "i < n" and "0 \<le> j" and "j < n"
  shows "let i0' = clamp x0;
             i0 = (n + (i0' smod n)) smod n;
             i1 = (i0 + 1) smod n;
             j0' = clamp y0;
             j0 = (n + (j0' smod n)) smod n;
             j1 = (j0 + 1) smod n
         in - n < i0' smod n \<and> i0' smod n < n \<and> 0 < n + (i0' smod n) \<and> n + (i0' smod n) < 2 * n \<and>
            - n < j0' smod n \<and> j0' smod n < n \<and> 0 < n + (j0' smod n) \<and> n + (j0' smod n) < 2 * n \<and>
            0 \<le> i0 \<and> i0 < n \<and> 0 \<le> i1 \<and> i1 < n \<and>
            0 \<le> j0 \<and> j0 < n \<and> 0 \<le> j1 \<and> j1 < n \<and>
            0 \<le> i0 + n * j0 \<and> i0 + n * j0 < n * n \<and>
            0 \<le> i0 + n * j1 \<and> i0 + n * j1 < n * n \<and>
            0 \<le> i1 + n * j0 \<and> i1 + n * j0 < n * n \<and>
            0 \<le> i1 + n * j1 \<and> i1 + n * j1 < n * n \<and>
            0 \<le> i + n * j \<and> i + n * j < n * n"
proof -
  have c: "0 \<le> i + n * j" "i + n * j < n * n"
    using assms by (simp_all add: flat_index_bounds)
  define a where "a = clamp x0"
  define b where "b = clamp y0"
  have i0: "(n + (a smod n)) smod n = a mod n" and j0: "(n + (b smod n)) smod n = b mod n"
    using assms by (simp_all add: wrap_eq_mod)
  have i1: "(a mod n + 1) smod n = (a + 1) mod n" and j1: "(b mod n + 1) smod n = (b + 1) mod n"
    using assms by (simp_all add: next_eq_mod)
  have r: "0 \<le> a mod n" "a mod n < n" "0 \<le> (a + 1) mod n" "(a + 1) mod n < n"
    "0 \<le> b mod n" "b mod n < n" "0 \<le> (b + 1) mod n" "(b + 1) mod n < n"
    using assms by simp_all
  have s: "- n < a smod n" "a smod n < n" "- n < b smod n" "b smod n < n"
    using assms by (simp_all add: smod_bounds)
  have f: "0 \<le> a mod n + n * (b mod n)" "a mod n + n * (b mod n) < n * n"
    "0 \<le> a mod n + n * ((b + 1) mod n)" "a mod n + n * ((b + 1) mod n) < n * n"
    "0 \<le> (a + 1) mod n + n * (b mod n)" "(a + 1) mod n + n * (b mod n) < n * n"
    "0 \<le> (a + 1) mod n + n * ((b + 1) mod n)" "(a + 1) mod n + n * ((b + 1) mod n) < n * n"
    using r by (simp_all add: flat_index_bounds)
  show ?thesis
    unfolding Let_def a_def [symmetric] b_def [symmetric] i0 j0 i1 j1
    using r s f c by simp
qed

theorem advection_indices_in_bounds_witness:
  "(0::int) < 50 \<and> clamp (- 1) = - 2 \<and> (50 + (clamp (- 1) smod 50)) smod 50 = 48 \<and>
   clamp (251 / 2) = 125 \<and> (50 + (clamp (251 / 2) smod 50)) smod 50 = 25 \<and>
   0 \<le> (48::int) + 50 * 25 \<and> 48 + 50 * 25 < (50::int) * 50 \<and>
   (0::int) \<le> 49 + 50 * 26 \<and> 49 + 50 * 26 < (50::int) * 50 \<and>
   (0::int) \<le> 3 \<and> (3::int) < 50 \<and> (0::int) \<le> 49 \<and> (49::int) < 50 \<and> (3::int) + 50 * 49 < 50 * 50"
proof -
  have h: "(0::int) < 50" and g: "(0::int) \<le> 3" "(3::int) < 50" "(0::int) \<le> 49" "(49::int) < 50"
    by simp_all
  have c: "clamp (- 1) = - 2" "clamp (251 / 2) = 125"
    by (rule clamp_values)+
  have m: "(50 + ((- 2) smod 50)) smod 50 = (48::int)" "(50 + (125 smod 50)) smod 50 = (25::int)"
    by (simp_all add: signed_modulo_int_def)
  show ?thesis
    using h advection_indices_in_bounds [OF h g, of "- 1" "251 / 2"]
    by (simp add: c m)
qed

section \<open>\<^verbatim>\<open>clamp\<close> and the fractional offsets\<close>

lemma clamp_nonneg:
  assumes "clamp_exact x" and "0 \<le> x"
  shows "clamp x = \<lfloor>x\<rfloor>"
proof -
  have "to_float x = x" "x < 2 ^ 31" using assms(1) by (simp_all add: clamp_exact_def)
  then show ?thesis using assms(2) by (simp add: clamp_def Let_def int_cast_def)
qed

lemma clamp_neg:
  assumes "clamp_exact x" and "x < 0"
  shows "clamp x = \<lceil>x\<rceil> - 1"
proof -
  have e: "to_float x = x" "to_float (1 - x) = 1 - x" and r: "- (2 ^ 31) + 1 < x"
    using assms by (simp_all add: clamp_exact_def)
  have "1 - x < 2 ^ 31" "0 \<le> 1 - x" using r assms(2) by simp_all
  then have c: "int_cast (1 - x) = \<lfloor>1 - x\<rfloor>" by (simp add: int_cast_def)
  have p: "1 \<le> \<lfloor>1 - x\<rfloor>" using assms(2) by (simp add: le_floor_iff)
  have q: "(- (2 ^ 31) :: int) < 1" by simp
  have "\<lfloor>1 - x\<rfloor> \<noteq> - (2 ^ 31)" using p q by linarith
  then have "int_neg \<lfloor>1 - x\<rfloor> = - \<lfloor>1 - x\<rfloor>" by (simp add: int_neg_def)
  then have "clamp x = - \<lfloor>1 - x\<rfloor>"
    using assms(2) by (simp add: clamp_def Let_def e c)
  also have "\<dots> = - (1 + \<lfloor>- x\<rfloor>)"
    using floor_add_int [of "- x" 1] by (simp add: add.commute)
  also have "\<dots> = \<lceil>x\<rceil> - 1" by (simp add: ceiling_def)
  finally show ?thesis .
qed


lemma clamp_of_int:
  assumes "clamp_exact (of_int k)"
  shows "clamp (of_int k) = (if 0 \<le> k then k else k - 1)"
  using clamp_nonneg [OF assms] clamp_neg [OF assms] by simp

text \<open>
  Where the conversions of \<^verbatim>\<open>clamp\<close> are exact, one axis of the interpolation, as
  the program computes it, is the interpolation between the cells \<open>\<lfloor>x\<rfloor>\<close> and
  \<open>\<lfloor>x\<rfloor> + 1\<close>, wrapped, with the fractional part of \<open>x\<close> as weight.
\<close>

lemma clamp_interpolation:
  fixes x :: real and g :: "int \<Rightarrow> real"
  assumes n: "0 < n" and ex: "clamp_exact x"
  shows "(1 - (x - of_int (clamp x))) * g ((n + (clamp x smod n)) smod n)
       + (x - of_int (clamp x)) * g (((n + (clamp x smod n)) smod n + 1) smod n)
     = (1 - (x - of_int \<lfloor>x\<rfloor>)) * g (\<lfloor>x\<rfloor> mod n) + (x - of_int \<lfloor>x\<rfloor>) * g ((\<lfloor>x\<rfloor> + 1) mod n)"
proof (cases "0 \<le> x \<or> x \<notin> \<int>")
  case True
  then have "clamp x = \<lfloor>x\<rfloor>"
  proof
    assume "0 \<le> x" then show ?thesis by (rule clamp_nonneg [OF ex])
  next
    assume nz: "x \<notin> \<int>"
    show ?thesis
    proof (cases "0 \<le> x")
      case True then show ?thesis by (rule clamp_nonneg [OF ex])
    next
      case False
      then have "clamp x = \<lceil>x\<rceil> - 1" by (simp add: clamp_neg [OF ex])
      also have "\<dots> = \<lfloor>x\<rfloor>"
      proof -
        have "x \<noteq> of_int \<lfloor>x\<rfloor>" using nz by (metis Ints_of_int)
        then show ?thesis by (simp add: ceiling_altdef)
      qed
      finally show ?thesis .
    qed
  qed
  then show ?thesis by (simp add: wrap_eq_mod [OF n] next_eq_mod [OF n])
next
  case False
  then obtain k where k: "x = of_int k" and neg: "k < 0"
    by (auto simp: Ints_def)
  have c: "clamp x = k - 1" using neg clamp_of_int [of k] ex by (simp add: k)
  have "((k - 1) mod n + 1) smod n = k mod n"
    using next_eq_mod [OF n, of "k - 1"] by simp
  then show ?thesis
    by (simp add: c wrap_eq_mod [OF n]) (simp add: k)
qed




section \<open>The advection loops\<close>

lemma for_cells_upto:
  "for_cells x i n body s = for_upto i n (\<lambda>k. body (x + (of_int k - of_int i) / of_int n) k) s"
proof (induction x i n body s rule: for_cells.induct)
  case (1 x i n body s)
  show ?case
  proof (cases "i < n")
    case True
    have e: "x + 1 / of_int n + (of_int k - (of_int i + 1)) / of_int n
        = x + (of_int k - of_int i) / (of_int n :: real)" for k
      by (simp add: add_divide_distrib diff_divide_distrib)
    have fn: "(\<lambda>k. body (x + 1 / of_int n + (of_int k - (of_int i + 1)) / of_int n) k)
        = (\<lambda>k. body (x + (of_int k - of_int i) / of_int n) k)"
      by (rule ext, subst e, rule refl)
    show ?thesis
      using True "1.IH" [OF True]
      by (subst for_cells.simps, subst for_upto.simps) (simp add: fn)
  next
    case False
    then show ?thesis
      by (subst for_cells.simps, subst for_upto.simps) simp
  qed
qed

lemma for_cells_upto_fun:
  "for_cells x i n body = for_upto i n (\<lambda>k. body (x + (of_int k - of_int i) / of_int n) k)"
  by (rule ext) (rule for_cells_upto)

lemma diffuse_matter_loops:
  "diffuse_matter n dt' st =
     for_upto 0 n (\<lambda>i. for_upto 0 n (\<lambda>j.
       diffuse_matter_cell n dt' (1 / 2 / of_int n + of_int i / of_int n)
         (1 / 2 / of_int n + of_int j / of_int n) i j)) st"
  by (simp add: diffuse_matter_def for_cells_upto_fun)

lemma solve_advect_loops:
  "solve_advect n dt' st =
     for_upto 0 n (\<lambda>i. for_upto 0 n (\<lambda>j.
       advect_velocity_cell n dt' (1 / 2 / of_int n + of_int i / of_int n)
         (1 / 2 / of_int n + of_int j / of_int n) i j)) st"
  by (simp add: solve_advect_def for_cells_upto_fun)

lemma diffuse_matter_cell_eq:
  "diffuse_matter_cell n dt' x y i j st =
     st\<lparr>rho := wr (rho st) (i + n * j)
       (corner_interpolation n (rho0 st)
         (of_int n * (x - dt' * rd (vx st) (i + n * j)) - 1 / 2)
         (of_int n * (y - dt' * rd (vy st) (i + n * j)) - 1 / 2))\<rparr>"
  by (simp add: diffuse_matter_cell_def corner_interpolation_def Let_def)

lemma advect_velocity_cell_eq:
  "advect_velocity_cell n dt' x y i j st =
     st\<lparr>vx := wr (vx st) (i + n * j)
       (corner_interpolation n (vx0 st)
         (of_int n * (x - dt' * rd (vx0 st) (i + n * j)) - 1 / 2)
         (of_int n * (y - dt' * rd (vy0 st) (i + n * j)) - 1 / 2)),
        vy := wr (vy st) (i + n * j)
       (corner_interpolation n (vy0 st)
         (of_int n * (x - dt' * rd (vx0 st) (i + n * j)) - 1 / 2)
         (of_int n * (y - dt' * rd (vy0 st) (i + n * j)) - 1 / 2))\<rparr>"
  by (simp add: advect_velocity_cell_def corner_interpolation_def Let_def)

text \<open>
  Claim C5. The advection never writes into the buffers it reads from:
  \<^verbatim>\<open>diffuse_matter\<close> leaves every cell of \<open>rho0\<close> as it was (and the velocity that
  carries the density too), and the velocity advection loop of \<^verbatim>\<open>solve\<close> leaves
  the snapshot buffers \<open>vx0\<close> and \<open>vy0\<close> as they were, for every velocity field,
  every source field, every time step and every grid size.
\<close>

theorem advection_keeps_source:
  "rho0 (diffuse_matter n dt' st) = rho0 st \<and>
   vx (diffuse_matter n dt' st) = vx st \<and>
   vy (diffuse_matter n dt' st) = vy st \<and>
   vx0 (solve_advect n dt' st) = vx0 st \<and>
   vy0 (solve_advect n dt' st) = vy0 st"
proof -
  have d: "f (diffuse_matter n dt' st) = f st"
    if "\<And>x y i j t. f (diffuse_matter_cell n dt' x y i j t) = f t" for f :: "sim \<Rightarrow> real list"
    unfolding diffuse_matter_loops
    by (rule for_upto_preserves, rule for_upto_preserves, rule that)
  have a: "f (solve_advect n dt' st) = f st"
    if "\<And>x y i j t. f (advect_velocity_cell n dt' x y i j t) = f t" for f :: "sim \<Rightarrow> real list"
    unfolding solve_advect_loops
    by (rule for_upto_preserves, rule for_upto_preserves, rule that)
  show ?thesis
    by (intro conjI d a) (simp_all add: diffuse_matter_cell_eq advect_velocity_cell_eq)
qed

lemma flat_index_inj:
  assumes "0 \<le> a" "a < (w::int)" "0 \<le> a'" "a' < w" "a + w * b = a' + w * b'"
  shows "a = a' \<and> b = b'"
proof -
  have "b = (a + w * b) div w" using assms(1,2) by simp
  also have "\<dots> = (a' + w * b') div w" by (simp only: assms(5))
  also have "\<dots> = b'" using assms(3,4) by simp
  finally have "b = b'" .
  with assms(5) show ?thesis by simp
qed

lemma corner_interpolation_bilinear:
  assumes n: "0 < n" and ex: "clamp_exact px" and ey: "clamp_exact py"
  shows "corner_interpolation n src px py = bilinear_sample n src px py"
proof -
  define t where "t = py - of_int (clamp py)"
  define j0 where "j0 = (n + (clamp py smod n)) smod n"
  define j1 where "j1 = (j0 + 1) smod n"
  define g where "g I = (1 - t) * rd src (I + n * j0) + t * rd src (I + n * j1)" for I
  have y: "g I = (1 - (py - of_int \<lfloor>py\<rfloor>)) * rd src (I + n * (\<lfloor>py\<rfloor> mod n))
      + (py - of_int \<lfloor>py\<rfloor>) * rd src (I + n * ((\<lfloor>py\<rfloor> + 1) mod n))" for I
    unfolding g_def t_def j0_def j1_def
    by (rule clamp_interpolation [OF n ey, of "\<lambda>J. rd src (I + n * J)"])
  have "corner_interpolation n src px py =
      (1 - (px - of_int (clamp px))) * g ((n + (clamp px smod n)) smod n)
      + (px - of_int (clamp px)) * g (((n + (clamp px smod n)) smod n + 1) smod n)"
    by (simp add: corner_interpolation_def Let_def g_def t_def j0_def j1_def)
  also have "\<dots> = (1 - (px - of_int \<lfloor>px\<rfloor>)) * g (\<lfloor>px\<rfloor> mod n)
      + (px - of_int \<lfloor>px\<rfloor>) * g ((\<lfloor>px\<rfloor> + 1) mod n)"
    by (rule clamp_interpolation [OF n ex])
  also have "\<dots> = bilinear_sample n src px py"
    unfolding y bilinear_sample_def Let_def by (simp add: algebra_simps)
  finally show ?thesis .
qed

lemma traced_position_eq:
  assumes "0 < n"
  shows "of_int n * ((1 / 2 / of_int n + of_int i / of_int n) - dt' * v) - 1 / 2
      = traced_position n dt' i v"
proof -
  have "(of_int n :: real) \<noteq> 0" using assms by simp
  then show ?thesis
    by (simp add: traced_position_def field_simps)
qed

lemma diffuse_matter_cells:
  assumes n: "0 < n" and len: "nat (n * n) \<le> length (rho st)"
    and i: "0 \<le> i" "i < n" and j: "0 \<le> j" "j < n"
  shows "rd (rho (diffuse_matter n dt' st)) (i + n * j) =
     corner_interpolation n (rho0 st)
       (traced_position n dt' i (rd (vx st) (i + n * j)))
       (traced_position n dt' j (rd (vy st) (i + n * j)))"
proof -
  define Inv where "Inv t \<longleftrightarrow> rho0 t = rho0 st \<and> vx t = vx st \<and> vy t = vy st \<and>
    length (rho t) = length (rho st)" for t :: sim
  define view where "view t p = (if 0 \<le> fst p \<and> fst p < n \<and> 0 \<le> snd p \<and> snd p < n
    then rd (rho t) (fst p + n * snd p) else 0)" for t :: sim and p :: "int \<times> int"
  define F where "F p v = (if 0 \<le> fst p \<and> fst p < n \<and> 0 \<le> snd p \<and> snd p < n
    then corner_interpolation n (rho0 st)
       (traced_position n dt' (fst p) (rd (vx st) (fst p + n * snd p)))
       (traced_position n dt' (snd p) (rd (vy st) (fst p + n * snd p))) else v)"
    for p :: "int \<times> int" and v :: real
  define body where "body a b = diffuse_matter_cell n dt' (1 / 2 / of_int n + of_int a / of_int n)
         (1 / 2 / of_int n + of_int b / of_int n) a b" for a b
  have inv: "Inv st" by (simp add: Inv_def)
  have pres: "Inv (body a b t)" if "Inv t" for a b t
    using that by (simp add: Inv_def body_def diffuse_matter_cell_eq)
  have upd: "view (body a b t) p = (if p = (a, b) then F p (view t p) else view t p)"
    if a: "0 \<le> a" "a < n" and b: "0 \<le> b" "b < n" and t: "Inv t" for a b t p
  proof -
    have bnd: "0 \<le> a + n * b" "nat (a + n * b) < length (rho t)"
      using flat_index_bounds [OF a b] len t by (simp_all add: Inv_def)
    have cell: "body a b t = t\<lparr>rho := wr (rho t) (a + n * b)
        (corner_interpolation n (rho0 st)
          (traced_position n dt' a (rd (vx st) (a + n * b)))
          (traced_position n dt' b (rd (vy st) (a + n * b))))\<rparr>"
      using t unfolding body_def diffuse_matter_cell_eq Inv_def
      by (simp only: traced_position_eq [OF n])
    show ?thesis
    proof (cases "p = (a, b)")
      case True
      then show ?thesis
        using a b bnd by (simp add: view_def F_def cell rd_wr)
    next
      case False
      show ?thesis
      proof (cases "0 \<le> fst p \<and> fst p < n \<and> 0 \<le> snd p \<and> snd p < n")
        case True
        then have nn: "0 \<le> fst p + n * snd p" by simp
        have "a + n * b \<noteq> fst p + n * snd p"
          using flat_index_inj [of a n "fst p" b "snd p"] True a False by (cases p) auto
        then show ?thesis
          using True False by (simp add: view_def cell rd_wr [OF nn])
      next
        case False
        then show ?thesis using \<open>p \<noteq> (a, b)\<close> by (auto simp: view_def)
      qed
    qed
  qed
  have "Inv (for_upto 0 n (\<lambda>a. for_upto 0 n (body a)) st) \<and>
    (\<forall>p. view (for_upto 0 n (\<lambda>a. for_upto 0 n (body a)) st) p =
       (if 0 \<le> fst p \<and> fst p < n \<and> 0 \<le> snd p \<and> snd p < n then F p (view st p) else view st p))"
    by (rule for_upto2_pointwise [where Inv = Inv and view = view and F = F])
      (simp_all add: inv pres upd)
  moreover have "diffuse_matter n dt' st = for_upto 0 n (\<lambda>a. for_upto 0 n (body a)) st"
    unfolding diffuse_matter_loops body_def [abs_def] by (rule refl)
  ultimately have "view (diffuse_matter n dt' st) (i, j) = F (i, j) (view st (i, j))"
    using i j by simp
  then show ?thesis
    using i j by (simp add: view_def F_def)
qed

lemma solve_advect_cells:
  assumes n: "0 < n" and len: "nat (n * n) \<le> length (vx st)" "nat (n * n) \<le> length (vy st)"
    and i: "0 \<le> i" "i < n" and j: "0 \<le> j" "j < n"
  shows "rd (vx (solve_advect n dt' st)) (i + n * j) =
     corner_interpolation n (vx0 st)
       (traced_position n dt' i (rd (vx0 st) (i + n * j)))
       (traced_position n dt' j (rd (vy0 st) (i + n * j)))"
    and "rd (vy (solve_advect n dt' st)) (i + n * j) =
     corner_interpolation n (vy0 st)
       (traced_position n dt' i (rd (vx0 st) (i + n * j)))
       (traced_position n dt' j (rd (vy0 st) (i + n * j)))"
proof -
  define Inv where "Inv t \<longleftrightarrow> vx0 t = vx0 st \<and> vy0 t = vy0 st \<and>
    length (vx t) = length (vx st) \<and> length (vy t) = length (vy st)" for t :: sim
  define view where "view t p = (if 0 \<le> fst p \<and> fst p < n \<and> 0 \<le> snd p \<and> snd p < n
    then (rd (vx t) (fst p + n * snd p), rd (vy t) (fst p + n * snd p)) else (0, 0))"
    for t :: sim and p :: "int \<times> int"
  define F where "F p v = (if 0 \<le> fst p \<and> fst p < n \<and> 0 \<le> snd p \<and> snd p < n
    then (corner_interpolation n (vx0 st)
       (traced_position n dt' (fst p) (rd (vx0 st) (fst p + n * snd p)))
       (traced_position n dt' (snd p) (rd (vy0 st) (fst p + n * snd p))),
      corner_interpolation n (vy0 st)
       (traced_position n dt' (fst p) (rd (vx0 st) (fst p + n * snd p)))
       (traced_position n dt' (snd p) (rd (vy0 st) (fst p + n * snd p)))) else v)"
    for p :: "int \<times> int" and v :: "real \<times> real"
  define body where "body a b = advect_velocity_cell n dt' (1 / 2 / of_int n + of_int a / of_int n)
         (1 / 2 / of_int n + of_int b / of_int n) a b" for a b
  have inv: "Inv st" by (simp add: Inv_def)
  have pres: "Inv (body a b t)" if "Inv t" for a b t
    using that by (simp add: Inv_def body_def advect_velocity_cell_eq)
  have upd: "view (body a b t) p = (if p = (a, b) then F p (view t p) else view t p)"
    if a: "0 \<le> a" "a < n" and b: "0 \<le> b" "b < n" and t: "Inv t" for a b t p
  proof -
    have bnd: "0 \<le> a + n * b" "nat (a + n * b) < length (vx t)" "nat (a + n * b) < length (vy t)"
      using flat_index_bounds [OF a b] len t by (simp_all add: Inv_def)
    have cell: "body a b t = t\<lparr>vx := wr (vx t) (a + n * b)
        (corner_interpolation n (vx0 st)
          (traced_position n dt' a (rd (vx0 st) (a + n * b)))
          (traced_position n dt' b (rd (vy0 st) (a + n * b)))),
        vy := wr (vy t) (a + n * b)
        (corner_interpolation n (vy0 st)
          (traced_position n dt' a (rd (vx0 st) (a + n * b)))
          (traced_position n dt' b (rd (vy0 st) (a + n * b))))\<rparr>"
      using t unfolding body_def advect_velocity_cell_eq Inv_def
      by (simp only: traced_position_eq [OF n])
    show ?thesis
    proof (cases "p = (a, b)")
      case True
      then show ?thesis
        using a b bnd by (simp add: view_def F_def cell rd_wr)
    next
      case False
      show ?thesis
      proof (cases "0 \<le> fst p \<and> fst p < n \<and> 0 \<le> snd p \<and> snd p < n")
        case True
        then have nn: "0 \<le> fst p + n * snd p" by simp
        have "a + n * b \<noteq> fst p + n * snd p"
          using flat_index_inj [of a n "fst p" b "snd p"] True a False by (cases p) auto
        then show ?thesis
          using True False by (simp add: view_def cell rd_wr [OF nn])
      next
        case False
        then show ?thesis using \<open>p \<noteq> (a, b)\<close> by (auto simp: view_def)
      qed
    qed
  qed
  have "Inv (for_upto 0 n (\<lambda>a. for_upto 0 n (body a)) st) \<and>
    (\<forall>p. view (for_upto 0 n (\<lambda>a. for_upto 0 n (body a)) st) p =
       (if 0 \<le> fst p \<and> fst p < n \<and> 0 \<le> snd p \<and> snd p < n then F p (view st p) else view st p))"
    by (rule for_upto2_pointwise [where Inv = Inv and view = view and F = F])
      (simp_all add: inv pres upd)
  moreover have "solve_advect n dt' st = for_upto 0 n (\<lambda>a. for_upto 0 n (body a)) st"
    unfolding solve_advect_loops body_def [abs_def] by (rule refl)
  ultimately have "view (solve_advect n dt' st) (i, j) = F (i, j) (view st (i, j))"
    using i j by simp
  then show "rd (vx (solve_advect n dt' st)) (i + n * j) =
     corner_interpolation n (vx0 st)
       (traced_position n dt' i (rd (vx0 st) (i + n * j)))
       (traced_position n dt' j (rd (vy0 st) (i + n * j)))"
    and "rd (vy (solve_advect n dt' st)) (i + n * j) =
     corner_interpolation n (vy0 st)
       (traced_position n dt' i (rd (vx0 st) (i + n * j)))
       (traced_position n dt' j (rd (vy0 st) (i + n * j)))"
    using i j by (simp_all add: view_def F_def)
qed

section \<open>What the advection writes\<close>

lemma initialized_lengths:
  assumes "0 < n" and "initialized n st"
  shows "nat (n * n) \<le> length (vx st)" "nat (n * n) \<le> length (vy st)"
    "nat (n * n) \<le> length (vx0 st)" "nat (n * n) \<le> length (vy0 st)"
    "nat (n * n) \<le> length (rho st)" "nat (n * n) \<le> length (rho0 st)"
proof -
  have "n sdiv 2 = n div 2" using assms(1) by (simp add: signed_divide_int_def sgn_if)
  then have "n \<le> 2 * (n sdiv 2 + 1)" by simp
  then have "n * n \<le> n * (2 * (n sdiv 2 + 1))" using assms(1) by (intro mult_left_mono) simp_all
  then have "nat (n * n) \<le> nat (n * 2 * (n sdiv 2 + 1))" by (simp add: mult.assoc)
  then show "nat (n * n) \<le> length (vx st)" "nat (n * n) \<le> length (vy st)"
    "nat (n * n) \<le> length (vx0 st)" "nat (n * n) \<le> length (vy0 st)"
    "nat (n * n) \<le> length (rho st)" "nat (n * n) \<le> length (rho0 st)"
    using assms(2) by (simp_all add: initialized_def)
qed

lemma initialized_example_state: "initialized 2 example_state"
  by (simp add: initialized_def example_state_def signed_divide_int_def)

text \<open>
  Claim C3. For every cell \<open>(i, j)\<close> the advection should write the bilinear
  interpolation of the four wrapped corner cells of the source buffer, with the
  weights \<open>(1-s)(1-t)\<close>, \<open>s(1-t)\<close>, \<open>(1-s)t\<close>, \<open>s t\<close>, where \<open>(s, t)\<close> is the fractional
  part of the traced position. \<^verbatim>\<open>clamp\<close> takes the base cell from the position
  narrowed to \<^verbatim>\<open>float\<close>, while the offset is taken from the position itself. On the
  \<open>2 \<times> 2\<close> grid with \<open>rho0 = [1, 2, 3, 4]\<close>, time step 1 and velocity
  \<open>(2\<^sup>-\<^sup>3\<^sup>3, 0)\<close> at cell \<open>(1, 0)\<close>, the traced position is \<open>(1 - 2\<^sup>-\<^sup>3\<^sup>2, 0)\<close>: its
  base cell is 0 and its fractional part \<open>1 - 2\<^sup>-\<^sup>3\<^sup>2\<close>, the interpolation is
  \<open>2 - 2\<^sup>-\<^sup>3\<^sup>2\<close>. The program takes the base cell 1 and the offset \<open>-2\<^sup>-\<^sup>3\<^sup>2\<close> and
  writes \<open>2 + 2\<^sup>-\<^sup>3\<^sup>2\<close>.
\<close>

theorem advection_base_cell_of_narrowed_position:
  "traced_position 2 1 1 (rd (vx (example_state\<lparr>vx := [0, 1 / 2 ^ 33, 0, 0, 0, 0, 0, 0]\<rparr>)) (1 + 2 * 0))
     = 1 - 1 / 2 ^ 32 \<and>
   traced_position 2 1 0 (rd (vy (example_state\<lparr>vx := [0, 1 / 2 ^ 33, 0, 0, 0, 0, 0, 0]\<rparr>)) (1 + 2 * 0))
     = 0 \<and>
   clamp (1 - 1 / 2 ^ 32) = 1 \<and>
   bilinear_sample 2 (rho0 (example_state\<lparr>vx := [0, 1 / 2 ^ 33, 0, 0, 0, 0, 0, 0]\<rparr>))
     (1 - 1 / 2 ^ 32) 0 = 2 - 1 / 2 ^ 32 \<and>
   rd (rho (diffuse_matter 2 1 (example_state\<lparr>vx := [0, 1 / 2 ^ 33, 0, 0, 0, 0, 0, 0]\<rparr>)))
     (1 + 2 * 0) = 2 + 1 / 2 ^ 32"
proof -
  let ?st = "example_state\<lparr>vx := [0, 1 / 2 ^ 33, 0, 0, 0, 0, 0, 0]\<rparr>"
  have v: "rd (vx ?st) (1 + 2 * 0) = 1 / 2 ^ 33" "rd (vy ?st) (1 + 2 * 0) = 0"
    "rho0 ?st = [1, 2, 3, 4]"
    by (simp_all add: example_state_def rd_def)
  have px: "traced_position 2 1 1 (1 / 2 ^ 33) = 1 - 1 / 2 ^ 32"
    and py: "traced_position 2 1 0 0 = 0"
    by (simp_all add: traced_position_def)
  have fl: "\<lfloor>1 - 1 / 2 ^ 32 :: real\<rfloor> = 0" by (simp add: floor_unique)
  have b: "bilinear_sample 2 [1, 2, 3, 4] (1 - 1 / 2 ^ 32) 0 = 2 - 1 / 2 ^ 32"
    unfolding bilinear_sample_def Let_def fl by (simp add: rd_def)
  have c: "corner_interpolation 2 [1, 2, 3, 4] (1 - 1 / 2 ^ 32) 0 = 2 + 1 / 2 ^ 32"
    unfolding corner_interpolation_def Let_def clamp_below_1 clamp_values
    by (simp add: rd_def signed_modulo_int_def)
  have len: "nat (2 * 2) \<le> length (rho ?st)"
    by (simp add: example_state_def)
  have "rd (rho (diffuse_matter 2 1 ?st)) (1 + 2 * 0) =
      corner_interpolation 2 (rho0 ?st)
        (traced_position 2 1 1 (rd (vx ?st) (1 + 2 * 0)))
        (traced_position 2 1 0 (rd (vy ?st) (1 + 2 * 0)))"
    by (rule diffuse_matter_cells [OF _ len]) simp_all
  then have w: "rd (rho (diffuse_matter 2 1 ?st)) (1 + 2 * 0) = 2 + 1 / 2 ^ 32"
    unfolding v px py c .
  show ?thesis
    unfolding v px py b
    using w clamp_below_1(1) by simp
qed

lemma corner_interpolation_constant:
  assumes n: "0 < n" and c: "\<forall>k. 0 \<le> k \<and> k < n * n \<longrightarrow> rd src k = c"
  shows "corner_interpolation n src px py = c"
proof -
  have r: "0 \<le> a mod n" "a mod n < n" for a using n by simp_all
  have m: "rd src (a mod n + n * (b mod n)) = c" for a b
    using c flat_index_bounds [OF r r, of a b] by simp
  have "corner_interpolation n src px py =
      (1 - (px - of_int (clamp px))) * ((1 - (py - of_int (clamp py))) * c + (py - of_int (clamp py)) * c)
      + (px - of_int (clamp px)) * ((1 - (py - of_int (clamp py))) * c + (py - of_int (clamp py)) * c)"
    unfolding corner_interpolation_def Let_def wrap_eq_mod [OF n] next_eq_mod [OF n] m ..
  also have "\<dots> = c" by (simp add: algebra_simps)
  finally show ?thesis .
qed

text \<open>
  Claim C9. Advection preserves constant fields: if every cell of the source
  buffer holds \<open>c\<close>, every cell of the destination buffer holds \<open>c\<close> after the
  advection, whatever the velocity field and the time step are. This holds for
  \<^verbatim>\<open>diffuse_matter\<close> (\<open>rho\<close> from \<open>rho0\<close>) and for the two components of the
  velocity advection in \<^verbatim>\<open>solve\<close> (\<open>vx\<close> from \<open>vx0\<close>, \<open>vy\<close> from \<open>vy0\<close>).
\<close>

theorem advection_preserves_constants:
  assumes "0 < n" and "initialized n st" and "0 \<le> i" and "i < n" and "0 \<le> j" and "j < n"
  shows "((\<forall>k. 0 \<le> k \<and> k < n * n \<longrightarrow> rd (rho0 st) k = c) \<longrightarrow>
        rd (rho (diffuse_matter n dt' st)) (i + n * j) = c) \<and>
     ((\<forall>k. 0 \<le> k \<and> k < n * n \<longrightarrow> rd (vx0 st) k = c) \<longrightarrow>
        rd (vx (solve_advect n dt' st)) (i + n * j) = c) \<and>
     ((\<forall>k. 0 \<le> k \<and> k < n * n \<longrightarrow> rd (vy0 st) k = c) \<longrightarrow>
        rd (vy (solve_advect n dt' st)) (i + n * j) = c)"
  using diffuse_matter_cells [OF assms(1) initialized_lengths(5) [OF assms(1,2)] assms(3-6)]
    solve_advect_cells [OF assms(1) initialized_lengths(1,2) [OF assms(1,2)] assms(3-6)]
    corner_interpolation_constant [OF assms(1)]
  by simp

theorem advection_preserves_constants_witness:
  "(0::int) < 2 \<and>
   initialized 2 (example_state\<lparr>rho0 := [3, 3, 3, 3], vx0 := [5, 5, 5, 5, 0, 0, 0, 0]\<rparr>) \<and>
   (0::int) \<le> 1 \<and> (1::int) < 2 \<and>
   rho0 (example_state\<lparr>rho0 := [3, 3, 3, 3], vx0 := [5, 5, 5, 5, 0, 0, 0, 0]\<rparr>) = [3, 3, 3, 3] \<and>
   rd (rho (diffuse_matter 2 (1 / 3)
      (example_state\<lparr>rho0 := [3, 3, 3, 3], vx0 := [5, 5, 5, 5, 0, 0, 0, 0]\<rparr>))) (1 + 2 * 1) = 3"
proof -
  let ?st = "example_state\<lparr>rho0 := [3, 3, 3, 3], vx0 := [5, 5, 5, 5, 0, 0, 0, 0]\<rparr>"
  have h: "(0::int) < 2" "(0::int) \<le> 1" "(1::int) < 2" by simp_all
  have i: "initialized 2 ?st"
    using initialized_example_state by (simp add: initialized_def)
  have c: "\<forall>k. 0 \<le> k \<and> k < 2 * 2 \<longrightarrow> rd (rho0 ?st) k = 3"
  proof (intro allI impI)
    fix k :: int assume "0 \<le> k \<and> k < 2 * 2"
    then have "nat k < 4" by linarith
    then have "nat k = 0 \<or> nat k = 1 \<or> nat k = 2 \<or> nat k = 3" by arith
    then show "rd (rho0 ?st) k = 3" by (auto simp: rd_def)
  qed
  show ?thesis
    using h i c advection_preserves_constants [OF h(1) i h(2) h(3) h(2) h(3), of 3 "1 / 3"]
    by simp
qed

section \<open>The frequency-domain loop\<close>

lemma for_by2_upto:
  "for_by2 (2 * k) n body s = for_upto k (n div 2 + 1) (\<lambda>k. body (2 * k)) s"
proof (induction k "n div 2 + 1" "\<lambda>k. body (2 * k)" s rule: for_upto.induct)
  case (1 k s)
  show ?case
  proof (cases "k < n div 2 + 1")
    case True
    then have le: "2 * k \<le> n" by linarith
    have "for_by2 (2 * k) n body s = for_by2 (2 * (k + 1)) n body (body (2 * k) s)"
      using le by (subst for_by2.simps) (simp add: algebra_simps)
    also have "\<dots> = for_upto (k + 1) (n div 2 + 1) (\<lambda>k. body (2 * k)) (body (2 * k) s)"
      using "1.hyps" [OF True] .
    also have "\<dots> = for_upto k (n div 2 + 1) (\<lambda>k. body (2 * k)) s"
      using True by (simp add: for_upto_step)
    finally show ?thesis .
  next
    case False
    then have "\<not> 2 * k \<le> n" by linarith
    then show ?thesis
      using False by (subst for_by2.simps) (simp add: for_upto_stop)
  qed
qed

lemma solve_spectral_loops:
  "solve_spectral n visc' dt' st =
     for_upto 0 (n div 2 + 1) (\<lambda>k. for_upto 0 n (\<lambda>j. spectral_bin n visc' dt' (2 * k) j)) st"
  using for_by2_upto [of 0 n "\<lambda>i. for_upto 0 n (\<lambda>j. spectral_bin n visc' dt' i j)" st]
  by (simp add: solve_spectral_def)

lemma padded_index_cases:
  assumes a: "0 \<le> a" "2 * a \<le> n" and k: "0 \<le> k" "2 * k \<le> (n::int)"
    and ne: "(k, j) \<noteq> (a, b)"
  shows "2 * k + (n + 2) * j \<noteq> 2 * a + (n + 2) * b"
    and "2 * k + (n + 2) * j \<noteq> 2 * a + 1 + (n + 2) * b"
    and "2 * k + 1 + (n + 2) * j \<noteq> 2 * a + (n + 2) * b"
    and "2 * k + 1 + (n + 2) * j \<noteq> 2 * a + 1 + (n + 2) * b"
proof -
  show "2 * k + (n + 2) * j \<noteq> 2 * a + (n + 2) * b"
    using flat_index_inj [of "2 * k" "n + 2" "2 * a" j b] a k ne by auto
  show "2 * k + (n + 2) * j \<noteq> 2 * a + 1 + (n + 2) * b"
    using flat_index_inj [of "2 * k" "n + 2" "2 * a + 1" j b] a k by presburger
  show "2 * k + 1 + (n + 2) * j \<noteq> 2 * a + (n + 2) * b"
    using flat_index_inj [of "2 * k + 1" "n + 2" "2 * a" j b] a k by presburger
  show "2 * k + 1 + (n + 2) * j \<noteq> 2 * a + 1 + (n + 2) * b"
    using flat_index_inj [of "2 * k + 1" "n + 2" "2 * a + 1" j b] a k ne by auto
qed

lemma padded_index_bounds:
  assumes "0 \<le> k" "2 * k \<le> (n::int)" "0 \<le> j" "j < n"
  shows "0 \<le> 2 * k + (n + 2) * j" and "2 * k + 1 + (n + 2) * j < n * (n + 2)"
proof -
  show "0 \<le> 2 * k + (n + 2) * j" using assms by simp
  have "j + 1 \<le> n" using assms by simp
  then have "(n + 2) * (j + 1) \<le> (n + 2) * n" using assms by (intro mult_left_mono) auto
  then show "2 * k + 1 + (n + 2) * j < n * (n + 2)" using assms by (simp add: algebra_simps)
qed

lemma solve_spectral_bins:
  assumes len: "nat (n * (n + 2)) \<le> length (vx0 st)" "nat (n * (n + 2)) \<le> length (vy0 st)"
    and k: "0 \<le> k" "2 * k \<le> n" and j: "0 \<le> j" "j < n"
  shows "(let x = of_int k; y = wavenumber_y n j; r = x * x + y * y;
              f = exp (- r * dt' * visc');
              U0 = rd (vx0 st) (2 * k + (n + 2) * j); V0 = rd (vy0 st) (2 * k + (n + 2) * j);
              U1 = rd (vx0 st) (2 * k + 1 + (n + 2) * j); V1 = rd (vy0 st) (2 * k + 1 + (n + 2) * j)
          in (rd (vx0 (solve_spectral n visc' dt' st)) (2 * k + (n + 2) * j),
              rd (vx0 (solve_spectral n visc' dt' st)) (2 * k + 1 + (n + 2) * j),
              rd (vy0 (solve_spectral n visc' dt' st)) (2 * k + (n + 2) * j),
              rd (vy0 (solve_spectral n visc' dt' st)) (2 * k + 1 + (n + 2) * j)) =
             (if r = 0 then (U0, U1, V0, V1)
              else (f * ((1 - x * x / r) * U0 - x * y / r * V0),
                    f * ((1 - x * x / r) * U1 - x * y / r * V1),
                    f * (- y * x / r * U0 + (1 - y * y / r) * V0),
                    f * (- y * x / r * U1 + (1 - y * y / r) * V1))))"
proof -
  define dom where "dom p \<longleftrightarrow> 0 \<le> fst p \<and> fst p < n div 2 + 1 \<and> 0 \<le> snd p \<and> snd p < n"
    for p :: "int \<times> int"
  define Inv where "Inv t \<longleftrightarrow> length (vx0 t) = length (vx0 st) \<and> length (vy0 t) = length (vy0 st)"
    for t :: sim
  define view where "view t p = (if dom p
    then (rd (vx0 t) (2 * fst p + (n + 2) * snd p), rd (vx0 t) (2 * fst p + 1 + (n + 2) * snd p),
          rd (vy0 t) (2 * fst p + (n + 2) * snd p), rd (vy0 t) (2 * fst p + 1 + (n + 2) * snd p))
    else (0, 0, 0, 0))" for t :: sim and p :: "int \<times> int"
  define newc where "newc p v = (case v of (U0, U1, V0, V1) \<Rightarrow>
      (let x = of_int (fst p); y = wavenumber_y n (snd p); r = x * x + y * y;
           f = exp (- r * dt' * visc')
       in if r = 0 then (U0, U1, V0, V1)
          else (f * ((1 - x * x / r) * U0 - x * y / r * V0),
                f * ((1 - x * x / r) * U1 - x * y / r * V1),
                f * (- y * x / r * U0 + (1 - y * y / r) * V0),
                f * (- y * x / r * U1 + (1 - y * y / r) * V1))))"
    for p :: "int \<times> int" and v :: "real \<times> real \<times> real \<times> real"
  define F where "F p v = (if dom p then newc p v else v)"
    for p :: "int \<times> int" and v :: "real \<times> real \<times> real \<times> real"
  have inv: "Inv st" by (simp add: Inv_def)
  have pres: "Inv (spectral_bin n visc' dt' i b t)" if "Inv t" for i b t
    using that by (simp add: Inv_def spectral_bin_def Let_def)
  have upd: "view (spectral_bin n visc' dt' (2 * a) b t) p =
      (if p = (a, b) then F p (view t p) else view t p)"
    if a: "0 \<le> a" "a < n div 2 + 1" and b: "0 \<le> b" "b < n" and t: "Inv t" for a b t p
  proof -
    have a2: "2 * a \<le> n" using a by linarith
    have dab: "dom (a, b)" using a b by (simp add: dom_def)
    have lt: "2 * a + 1 + (n + 2) * b < n * (n + 2)" and nn: "0 \<le> 2 * a + (n + 2) * b"
      using padded_index_bounds [OF a(1) a2 b] by simp_all
    have in0: "nat (2 * a + (n + 2) * b) < length (vx0 t)" "nat (2 * a + (n + 2) * b) < length (vy0 t)"
      and in1: "nat (2 * a + 1 + (n + 2) * b) < length (vx0 t)"
        "nat (2 * a + 1 + (n + 2) * b) < length (vy0 t)"
      using lt nn len t by (simp_all add: Inv_def)
    have half: "(1 / 2 * of_int (2 * a) :: real) = of_int a" by simp
    define y where "y = wavenumber_y n b"
    have yb: "(if b \<le> n sdiv 2 then of_int b else of_int b - of_int n) = y"
      by (simp add: y_def wavenumber_y_def)
    show ?thesis
    proof (cases "of_int a * of_int a + wavenumber_y n b * wavenumber_y n b = (0::real)")
      case True
      then have "spectral_bin n visc' dt' (2 * a) b t = t"
        unfolding spectral_bin_def Let_def half yb by (simp add: y_def)
      moreover have "F (a, b) (view t (a, b)) = view t (a, b)"
        using True dab by (simp add: F_def newc_def view_def Let_def)
      ultimately show ?thesis by simp
    next
      case False
      have cell: "spectral_bin n visc' dt' (2 * a) b t =
          t\<lparr>vx0 := wr (wr (vx0 t) (2 * a + (n + 2) * b)
                  (fst (F (a, b) (view t (a, b))))) (2 * a + 1 + (n + 2) * b)
                  (fst (snd (F (a, b) (view t (a, b))))),
            vy0 := wr (wr (vy0 t) (2 * a + (n + 2) * b)
                  (fst (snd (snd (F (a, b) (view t (a, b))))))) (2 * a + 1 + (n + 2) * b)
                  (snd (snd (snd (F (a, b) (view t (a, b))))))\<rparr>"
        unfolding spectral_bin_def F_def newc_def view_def Let_def half yb
        using False dab by (auto simp: y_def)
      show ?thesis
      proof (cases "p = (a, b)")
        case True
        have "0 \<le> 2 * a + 1 + (n + 2) * b" using nn by simp
        then show ?thesis
          using True dab nn in0 in1
          by (simp add: view_def cell rd_wr)
      next
        case ne: False
        show ?thesis
        proof (cases "dom p")
          case True
          then have pk: "0 \<le> fst p" "2 * fst p \<le> n" and pj: "0 \<le> snd p" "snd p < n"
            by (simp_all add: dom_def) linarith
          have d: "2 * a + (n + 2) * b \<noteq> 2 * fst p + (n + 2) * snd p"
            "2 * a + 1 + (n + 2) * b \<noteq> 2 * fst p + (n + 2) * snd p"
            "2 * a + (n + 2) * b \<noteq> 2 * fst p + 1 + (n + 2) * snd p"
            "2 * a + 1 + (n + 2) * b \<noteq> 2 * fst p + 1 + (n + 2) * snd p"
            using padded_index_cases [OF a(1) a2 pk, of "snd p" b] ne by (cases p; simp)+
          have pn: "0 \<le> 2 * fst p + (n + 2) * snd p" "0 \<le> 2 * fst p + 1 + (n + 2) * snd p"
            using padded_index_bounds(1) [OF pk pj] by simp_all
          show ?thesis
            using True ne d by (simp add: view_def cell rd_wr [OF pn(1)] rd_wr [OF pn(2)])
        next
          case False
          then show ?thesis using ne by (simp add: view_def)
        qed
      qed
    qed
  qed
  have "Inv (for_upto 0 (n div 2 + 1) (\<lambda>a. for_upto 0 n (\<lambda>b. spectral_bin n visc' dt' (2 * a) b)) st) \<and>
    (\<forall>p. view (for_upto 0 (n div 2 + 1) (\<lambda>a. for_upto 0 n (\<lambda>b. spectral_bin n visc' dt' (2 * a) b)) st) p =
       (if 0 \<le> fst p \<and> fst p < n div 2 + 1 \<and> 0 \<le> snd p \<and> snd p < n
        then F p (view st p) else view st p))"
    by (rule for_upto2_pointwise [where Inv = Inv and view = view and F = F
          and body = "\<lambda>a b. spectral_bin n visc' dt' (2 * a) b"])
      (simp_all add: inv pres upd)
  moreover have "dom (k, j)" using k j by (simp add: dom_def)
  ultimately have "view (solve_spectral n visc' dt' st) (k, j) = newc (k, j) (view st (k, j))"
    by (simp add: solve_spectral_loops F_def dom_def)
  then show ?thesis
    using \<open>dom (k, j)\<close> by (simp add: view_def newc_def Let_def)
qed

lemma projection_orthogonal:
  fixes x y f U V :: real
  assumes "x * x + y * y \<noteq> 0"
  shows "x * (f * ((1 - x * x / (x * x + y * y)) * U - x * y / (x * x + y * y) * V))
       + y * (f * (- y * x / (x * x + y * y) * U + (1 - y * y / (x * x + y * y)) * V)) = 0"
proof -
  define r where "r = x * x + y * y"
  have r: "r \<noteq> 0" using assms by (simp add: r_def)
  have a: "1 - x * x / r = y * y / r" and b: "1 - y * y / r = x * x / r"
    using r by (simp_all add: r_def field_simps)
  have "x * (f * ((1 - x * x / r) * U - x * y / r * V))
       + y * (f * (- y * x / r * U + (1 - y * y / r) * V)) = 0"
    unfolding a b by (simp add: algebra_simps)
  then show ?thesis by (simp add: r_def)
qed

lemma solve_spectral_bin_nonzero:
  assumes len: "nat (n * (n + 2)) \<le> length (vx0 st)" "nat (n * (n + 2)) \<le> length (vy0 st)"
    and k: "0 \<le> k" "2 * k \<le> n" and j: "0 \<le> j" "j < n"
    and r: "of_int k * of_int k + wavenumber_y n j * wavenumber_y n j \<noteq> (0::real)"
  shows "rd (vx0 (solve_spectral n visc' dt' st)) (2 * k + (n + 2) * j) =
      exp (- (of_int k * of_int k + wavenumber_y n j * wavenumber_y n j) * dt' * visc') *
        ((1 - of_int k * of_int k / (of_int k * of_int k + wavenumber_y n j * wavenumber_y n j)) *
           rd (vx0 st) (2 * k + (n + 2) * j)
         - of_int k * wavenumber_y n j / (of_int k * of_int k + wavenumber_y n j * wavenumber_y n j) *
           rd (vy0 st) (2 * k + (n + 2) * j))"
    and "rd (vy0 (solve_spectral n visc' dt' st)) (2 * k + (n + 2) * j) =
      exp (- (of_int k * of_int k + wavenumber_y n j * wavenumber_y n j) * dt' * visc') *
        (- wavenumber_y n j * of_int k / (of_int k * of_int k + wavenumber_y n j * wavenumber_y n j) *
           rd (vx0 st) (2 * k + (n + 2) * j)
         + (1 - wavenumber_y n j * wavenumber_y n j /
                (of_int k * of_int k + wavenumber_y n j * wavenumber_y n j)) *
           rd (vy0 st) (2 * k + (n + 2) * j))"
    and "rd (vx0 (solve_spectral n visc' dt' st)) (2 * k + 1 + (n + 2) * j) =
      exp (- (of_int k * of_int k + wavenumber_y n j * wavenumber_y n j) * dt' * visc') *
        ((1 - of_int k * of_int k / (of_int k * of_int k + wavenumber_y n j * wavenumber_y n j)) *
           rd (vx0 st) (2 * k + 1 + (n + 2) * j)
         - of_int k * wavenumber_y n j / (of_int k * of_int k + wavenumber_y n j * wavenumber_y n j) *
           rd (vy0 st) (2 * k + 1 + (n + 2) * j))"
    and "rd (vy0 (solve_spectral n visc' dt' st)) (2 * k + 1 + (n + 2) * j) =
      exp (- (of_int k * of_int k + wavenumber_y n j * wavenumber_y n j) * dt' * visc') *
        (- wavenumber_y n j * of_int k / (of_int k * of_int k + wavenumber_y n j * wavenumber_y n j) *
           rd (vx0 st) (2 * k + 1 + (n + 2) * j)
         + (1 - wavenumber_y n j * wavenumber_y n j /
                (of_int k * of_int k + wavenumber_y n j * wavenumber_y n j)) *
           rd (vy0 st) (2 * k + 1 + (n + 2) * j))"
proof -
  note t = solve_spectral_bins [OF len k j, of dt' visc', unfolded Let_def]
  have c: "(of_int k * of_int k + wavenumber_y n j * wavenumber_y n j = (0::real)) = False"
    using r by simp
  note e = t [unfolded c if_False prod.inject]
  show "rd (vx0 (solve_spectral n visc' dt' st)) (2 * k + (n + 2) * j) =
      exp (- (of_int k * of_int k + wavenumber_y n j * wavenumber_y n j) * dt' * visc') *
        ((1 - of_int k * of_int k / (of_int k * of_int k + wavenumber_y n j * wavenumber_y n j)) *
           rd (vx0 st) (2 * k + (n + 2) * j)
         - of_int k * wavenumber_y n j / (of_int k * of_int k + wavenumber_y n j * wavenumber_y n j) *
           rd (vy0 st) (2 * k + (n + 2) * j))"
    using e by blast
  show "rd (vy0 (solve_spectral n visc' dt' st)) (2 * k + (n + 2) * j) =
      exp (- (of_int k * of_int k + wavenumber_y n j * wavenumber_y n j) * dt' * visc') *
        (- wavenumber_y n j * of_int k / (of_int k * of_int k + wavenumber_y n j * wavenumber_y n j) *
           rd (vx0 st) (2 * k + (n + 2) * j)
         + (1 - wavenumber_y n j * wavenumber_y n j /
                (of_int k * of_int k + wavenumber_y n j * wavenumber_y n j)) *
           rd (vy0 st) (2 * k + (n + 2) * j))"
    using e by blast
  show "rd (vx0 (solve_spectral n visc' dt' st)) (2 * k + 1 + (n + 2) * j) =
      exp (- (of_int k * of_int k + wavenumber_y n j * wavenumber_y n j) * dt' * visc') *
        ((1 - of_int k * of_int k / (of_int k * of_int k + wavenumber_y n j * wavenumber_y n j)) *
           rd (vx0 st) (2 * k + 1 + (n + 2) * j)
         - of_int k * wavenumber_y n j / (of_int k * of_int k + wavenumber_y n j * wavenumber_y n j) *
           rd (vy0 st) (2 * k + 1 + (n + 2) * j))"
    using e by blast
  show "rd (vy0 (solve_spectral n visc' dt' st)) (2 * k + 1 + (n + 2) * j) =
      exp (- (of_int k * of_int k + wavenumber_y n j * wavenumber_y n j) * dt' * visc') *
        (- wavenumber_y n j * of_int k / (of_int k * of_int k + wavenumber_y n j * wavenumber_y n j) *
           rd (vx0 st) (2 * k + 1 + (n + 2) * j)
         + (1 - wavenumber_y n j * wavenumber_y n j /
                (of_int k * of_int k + wavenumber_y n j * wavenumber_y n j)) *
           rd (vy0 st) (2 * k + 1 + (n + 2) * j))"
    using e by blast
qed

lemma solve_spectral_dc:
  assumes len: "nat (n * (n + 2)) \<le> length (vx0 st)" "nat (n * (n + 2)) \<le> length (vy0 st)"
    and n: "0 < n"
  shows "rd (vx0 (solve_spectral n visc' dt' st)) 0 = rd (vx0 st) 0"
    and "rd (vx0 (solve_spectral n visc' dt' st)) 1 = rd (vx0 st) 1"
    and "rd (vy0 (solve_spectral n visc' dt' st)) 0 = rd (vy0 st) 0"
    and "rd (vy0 (solve_spectral n visc' dt' st)) 1 = rd (vy0 st) 1"
proof -
  have n0: "(0::int) \<le> 0" "2 * 0 \<le> n" "0 < n" using n by simp_all
  have w: "wavenumber_y n 0 = 0"
    using n by (simp add: wavenumber_y_def signed_divide_int_def sgn_if)
  show "rd (vx0 (solve_spectral n visc' dt' st)) 0 = rd (vx0 st) 0"
    and "rd (vx0 (solve_spectral n visc' dt' st)) 1 = rd (vx0 st) 1"
    and "rd (vy0 (solve_spectral n visc' dt' st)) 0 = rd (vy0 st) 0"
    and "rd (vy0 (solve_spectral n visc' dt' st)) 1 = rd (vy0 st) 1"
    using solve_spectral_bins [OF len n0(1,2,1,3), of dt' visc']
    unfolding Let_def by (simp_all add: w)
qed

text \<open>
  Claim C1. After the frequency-domain loop of \<^verbatim>\<open>solve\<close>, for every bin of the
  loop (\<open>i\<close> even, \<open>0 \<le> i \<le> n\<close>, \<open>0 \<le> j < n\<close>) whose wavevector
  \<open>(kx, ky) = (i / 2, wavenumber_y n j)\<close> has \<open>kx\<^sup>2 + ky\<^sup>2 \<noteq> 0\<close>, the dot product
  \<open>kx * Vx + ky * Vy\<close> of the wavevector with the updated coefficients is zero, for
  the real parts (elements \<^verbatim>\<open>i+(n+2)*j\<close>) and for the imaginary parts (elements
  \<^verbatim>\<open>i+1+(n+2)*j\<close>).
\<close>

theorem spectral_step_orthogonal_to_wavevector:
  assumes "nat (n * (n + 2)) \<le> length (vx0 st)" and "nat (n * (n + 2)) \<le> length (vy0 st)"
    and "0 \<le> i" and "i \<le> n" and "even i" and "0 \<le> j" and "j < n"
    and "(1 / 2 * of_int i) * (1 / 2 * of_int i) + wavenumber_y n j * wavenumber_y n j \<noteq> 0"
  shows "(1 / 2 * of_int i) * rd (vx0 (solve_spectral n visc' dt' st)) (i + (n + 2) * j)
         + wavenumber_y n j * rd (vy0 (solve_spectral n visc' dt' st)) (i + (n + 2) * j) = 0 \<and>
       (1 / 2 * of_int i) * rd (vx0 (solve_spectral n visc' dt' st)) (i + 1 + (n + 2) * j)
         + wavenumber_y n j * rd (vy0 (solve_spectral n visc' dt' st)) (i + 1 + (n + 2) * j) = 0"
proof -
  obtain k where i: "i = 2 * k" using assms(5) by (auto elim: evenE)
  have k: "0 \<le> k" "2 * k \<le> n" using assms(3,4) i by simp_all
  have x: "(1 / 2 * of_int i :: real) = of_int k" by (simp add: i)
  have r: "of_int k * of_int k + wavenumber_y n j * wavenumber_y n j \<noteq> (0::real)"
    using assms(8) unfolding x .
  have x2: "(1 / 2 * of_int (2 * k) :: real) = of_int k" by simp
  show ?thesis
    unfolding i x2 solve_spectral_bin_nonzero [OF assms(1,2) k assms(6,7) r]
    by (intro conjI projection_orthogonal [OF r])
qed

theorem spectral_step_orthogonal_to_wavevector_witness:
  "nat (2 * (2 + 2)) \<le> length (vx0 example_state) \<and>
   nat (2 * (2 + 2)) \<le> length (vy0 example_state) \<and> (0::int) \<le> 2 \<and> even (2::int) \<and>
   (0::int) \<le> 1 \<and> (1::int) < 2 \<and> wavenumber_y 2 1 = 1 \<and>
   (1 / 2 * of_int 2) * (1 / 2 * of_int 2) + wavenumber_y 2 1 * wavenumber_y 2 1 \<noteq> (0::real) \<and>
   rd (vx0 (solve_spectral 2 (1 / 1000) (1 / 25) example_state)) (2 + (2 + 2) * 1)
     + rd (vy0 (solve_spectral 2 (1 / 1000) (1 / 25) example_state)) (2 + (2 + 2) * 1) = 0 \<and>
   rd (vx0 (solve_spectral 2 (1 / 1000) (1 / 25) example_state)) (2 + 1 + (2 + 2) * 1)
     + rd (vy0 (solve_spectral 2 (1 / 1000) (1 / 25) example_state)) (2 + 1 + (2 + 2) * 1) = 0"
proof -
  have l: "nat (2 * (2 + 2)) \<le> length (vx0 example_state)"
    "nat (2 * (2 + 2)) \<le> length (vy0 example_state)"
    by (simp_all add: example_state_def)
  have h: "(0::int) \<le> 2" "(2::int) \<le> 2" "even (2::int)" "(0::int) \<le> 1" "(1::int) < 2"
    by simp_all
  have w: "wavenumber_y 2 1 = 1"
    by (simp add: wavenumber_y_def signed_divide_int_def)
  have r: "(1 / 2 * of_int 2) * (1 / 2 * of_int 2) + wavenumber_y 2 1 * wavenumber_y 2 1 \<noteq> (0::real)"
    by (simp add: w)
  show ?thesis
    using l h w r spectral_step_orthogonal_to_wavevector [OF l h r, of "1 / 1000" "1 / 25"]
    by simp
qed

section \<open>The mean velocity\<close>

lemma grid_sum_scaled:
  assumes "\<And>i j. 0 \<le> i \<Longrightarrow> i < n \<Longrightarrow> 0 \<le> j \<Longrightarrow> j < n \<Longrightarrow>
      rd a (i + s * j) = c * rd b (i + s' * j)"
  shows "grid_sum n s a = c * grid_sum n s' b"
proof -
  have "(\<Sum>i = 0..<nat n. rd a (int i + s * int j)) = (\<Sum>i = 0..<nat n. c * rd b (int i + s' * int j))"
    if "j \<in> {0..<nat n}" for j
    by (rule sum.cong [OF refl]) (use that in \<open>simp add: assms\<close>)
  then show ?thesis
    by (simp add: grid_sum_def sum_distrib_left)
qed

lemma padded_cell_bounds:
  assumes "0 \<le> i" "i < (n::int)" "0 \<le> j" "j < n"
  shows "0 \<le> i + (n + 2) * j" and "i + (n + 2) * j < n * (n + 2)"
proof -
  show "0 \<le> i + (n + 2) * j" using assms by simp
  have "j + 1 \<le> n" using assms by simp
  then have "(n + 2) * (j + 1) \<le> (n + 2) * n" using assms by (intro mult_left_mono) auto
  then show "i + (n + 2) * j < n * (n + 2)" using assms by (simp add: algebra_simps)
qed

lemma solve_pad_cells:
  assumes len: "nat (n * (n + 2)) \<le> length (vx0 st)" "nat (n * (n + 2)) \<le> length (vy0 st)"
    and i: "0 \<le> i" "i < n" and j: "0 \<le> j" "j < n"
  shows "rd (vx0 (solve_pad n st)) (i + (n + 2) * j) = rd (vx st) (i + n * j)"
    and "rd (vy0 (solve_pad n st)) (i + (n + 2) * j) = rd (vy st) (i + n * j)"
proof -
  define dom where "dom p \<longleftrightarrow> 0 \<le> fst p \<and> fst p < n \<and> 0 \<le> snd p \<and> snd p < n"
    for p :: "int \<times> int"
  define Inv where "Inv t \<longleftrightarrow> vx t = vx st \<and> vy t = vy st \<and>
    length (vx0 t) = length (vx0 st) \<and> length (vy0 t) = length (vy0 st)" for t :: sim
  define view where "view t p = (if dom p
    then (rd (vx0 t) (fst p + (n + 2) * snd p), rd (vy0 t) (fst p + (n + 2) * snd p))
    else (0, 0))" for t :: sim and p :: "int \<times> int"
  define F where "F p v = (if dom p
    then (rd (vx st) (fst p + n * snd p), rd (vy st) (fst p + n * snd p)) else v)"
    for p :: "int \<times> int" and v :: "real \<times> real"
  have inv: "Inv st" by (simp add: Inv_def)
  have pres: "Inv (pad_cell n a b t)" if "Inv t" for a b t
    using that by (simp add: Inv_def pad_cell_def Let_def)
  have upd: "view (pad_cell n a b t) p = (if p = (a, b) then F p (view t p) else view t p)"
    if a: "0 \<le> a" "a < n" and b: "0 \<le> b" "b < n" and t: "Inv t" for a b t p
  proof -
    have dab: "dom (a, b)" using a b by (simp add: dom_def)
    have bnd: "0 \<le> a + (n + 2) * b" "nat (a + (n + 2) * b) < length (vx0 t)"
      "nat (a + (n + 2) * b) < length (vy0 t)"
      using padded_cell_bounds [OF a b] len t by (simp_all add: Inv_def)
    have cell: "pad_cell n a b t = t\<lparr>vx0 := wr (vx0 t) (a + (n + 2) * b) (rd (vx st) (a + n * b)),
        vy0 := wr (vy0 t) (a + (n + 2) * b) (rd (vy st) (a + n * b))\<rparr>"
      using t by (simp add: pad_cell_def Let_def Inv_def)
    show ?thesis
    proof (cases "p = (a, b)")
      case True
      then show ?thesis using dab bnd by (simp add: view_def F_def cell rd_wr)
    next
      case ne: False
      show ?thesis
      proof (cases "dom p")
        case True
        then have pn: "0 \<le> fst p + (n + 2) * snd p" by (simp add: dom_def)
        have "a + (n + 2) * b \<noteq> fst p + (n + 2) * snd p"
          using flat_index_inj [of a "n + 2" "fst p" b "snd p"] True a ne
          by (cases p) (auto simp: dom_def)
        then show ?thesis using True ne by (simp add: view_def cell rd_wr [OF pn])
      next
        case False
        then show ?thesis using ne by (simp add: view_def)
      qed
    qed
  qed
  have "Inv (for_upto 0 n (\<lambda>a. for_upto 0 n (pad_cell n a)) st) \<and>
    (\<forall>p. view (for_upto 0 n (\<lambda>a. for_upto 0 n (pad_cell n a)) st) p =
       (if 0 \<le> fst p \<and> fst p < n \<and> 0 \<le> snd p \<and> snd p < n then F p (view st p) else view st p))"
    by (rule for_upto2_pointwise [where Inv = Inv and view = view and F = F])
      (simp_all add: inv pres upd)
  moreover have "dom (i, j)" using i j by (simp add: dom_def)
  ultimately have "view (solve_pad n st) (i, j) = F (i, j) (view st (i, j))"
    by (simp add: solve_pad_def dom_def)
  then show "rd (vx0 (solve_pad n st)) (i + (n + 2) * j) = rd (vx st) (i + n * j)"
    and "rd (vy0 (solve_pad n st)) (i + (n + 2) * j) = rd (vy st) (i + n * j)"
    using \<open>dom (i, j)\<close> by (simp_all add: view_def F_def)
qed

lemma solve_normalize_cells:
  assumes len: "nat (n * n) \<le> length (vx st)" "nat (n * n) \<le> length (vy st)"
    and i: "0 \<le> i" "i < n" and j: "0 \<le> j" "j < n"
  shows "rd (vx (solve_normalize n st)) (i + n * j)
      = 1 / of_int (n * n) * rd (vx0 st) (i + (n + 2) * j)"
    and "rd (vy (solve_normalize n st)) (i + n * j)
      = 1 / of_int (n * n) * rd (vy0 st) (i + (n + 2) * j)"
proof -
  define f :: real where "f = 1 / of_int (n * n)"
  define dom where "dom p \<longleftrightarrow> 0 \<le> fst p \<and> fst p < n \<and> 0 \<le> snd p \<and> snd p < n"
    for p :: "int \<times> int"
  define Inv where "Inv t \<longleftrightarrow> vx0 t = vx0 st \<and> vy0 t = vy0 st \<and>
    length (vx t) = length (vx st) \<and> length (vy t) = length (vy st)" for t :: sim
  define view where "view t p = (if dom p
    then (rd (vx t) (fst p + n * snd p), rd (vy t) (fst p + n * snd p))
    else (0, 0))" for t :: sim and p :: "int \<times> int"
  define F where "F p v = (if dom p
    then (f * rd (vx0 st) (fst p + (n + 2) * snd p), f * rd (vy0 st) (fst p + (n + 2) * snd p))
    else v)" for p :: "int \<times> int" and v :: "real \<times> real"
  have inv: "Inv st" by (simp add: Inv_def)
  have pres: "Inv (normalize_cell n f a b t)" if "Inv t" for a b t
    using that by (simp add: Inv_def normalize_cell_def Let_def)
  have upd: "view (normalize_cell n f a b t) p = (if p = (a, b) then F p (view t p) else view t p)"
    if a: "0 \<le> a" "a < n" and b: "0 \<le> b" "b < n" and t: "Inv t" for a b t p
  proof -
    have dab: "dom (a, b)" using a b by (simp add: dom_def)
    have bnd: "0 \<le> a + n * b" "nat (a + n * b) < length (vx t)" "nat (a + n * b) < length (vy t)"
      using flat_index_bounds [OF a b] len t by (simp_all add: Inv_def)
    have cell: "normalize_cell n f a b t =
        t\<lparr>vx := wr (vx t) (a + n * b) (f * rd (vx0 st) (a + (n + 2) * b)),
          vy := wr (vy t) (a + n * b) (f * rd (vy0 st) (a + (n + 2) * b))\<rparr>"
      using t by (simp add: normalize_cell_def Let_def Inv_def)
    show ?thesis
    proof (cases "p = (a, b)")
      case True
      then show ?thesis using dab bnd by (simp add: view_def F_def cell rd_wr)
    next
      case ne: False
      show ?thesis
      proof (cases "dom p")
        case True
        then have pn: "0 \<le> fst p + n * snd p" by (simp add: dom_def)
        have "a + n * b \<noteq> fst p + n * snd p"
          using flat_index_inj [of a n "fst p" b "snd p"] True a ne
          by (cases p) (auto simp: dom_def)
        then show ?thesis using True ne by (simp add: view_def cell rd_wr [OF pn])
      next
        case False
        then show ?thesis using ne by (simp add: view_def)
      qed
    qed
  qed
  have "Inv (for_upto 0 n (\<lambda>a. for_upto 0 n (normalize_cell n f a)) st) \<and>
    (\<forall>p. view (for_upto 0 n (\<lambda>a. for_upto 0 n (normalize_cell n f a)) st) p =
       (if 0 \<le> fst p \<and> fst p < n \<and> 0 \<le> snd p \<and> snd p < n then F p (view st p) else view st p))"
    by (rule for_upto2_pointwise [where Inv = Inv and view = view and F = F])
      (simp_all add: inv pres upd)
  moreover have "dom (i, j)" using i j by (simp add: dom_def)
  moreover have "solve_normalize n st = for_upto 0 n (\<lambda>a. for_upto 0 n (normalize_cell n f a)) st"
    unfolding solve_normalize_def Let_def f_def by (rule refl)
  ultimately have "view (solve_normalize n st) (i, j) = F (i, j) (view st (i, j))"
    by (simp add: dom_def)
  then show "rd (vx (solve_normalize n st)) (i + n * j)
      = 1 / of_int (n * n) * rd (vx0 st) (i + (n + 2) * j)"
    and "rd (vy (solve_normalize n st)) (i + n * j)
      = 1 / of_int (n * n) * rd (vy0 st) (i + (n + 2) * j)"
    using \<open>dom (i, j)\<close> by (simp_all add: view_def F_def f_def)
qed

lemma solve_pad_frame:
  "vx (solve_pad n st) = vx st" "vy (solve_pad n st) = vy st"
  "plan_rc (solve_pad n st) = plan_rc st" "plan_cr (solve_pad n st) = plan_cr st"
  "length (vx0 (solve_pad n st)) = length (vx0 st)"
  "length (vy0 (solve_pad n st)) = length (vy0 st)"
  unfolding solve_pad_def
  by (rule for_upto_preserves, rule for_upto_preserves, simp add: pad_cell_def Let_def)+

lemma solve_spectral_frame:
  "vx (solve_spectral n visc' dt' st) = vx st" "vy (solve_spectral n visc' dt' st) = vy st"
  "plan_rc (solve_spectral n visc' dt' st) = plan_rc st"
  "plan_cr (solve_spectral n visc' dt' st) = plan_cr st"
  "length (vx0 (solve_spectral n visc' dt' st)) = length (vx0 st)"
  "length (vy0 (solve_spectral n visc' dt' st)) = length (vy0 st)"
  unfolding solve_spectral_loops
  by (rule for_upto_preserves, rule for_upto_preserves, simp add: spectral_bin_def Let_def)+

lemma padded_size:
  assumes "0 < (n::int)" and "even n"
  shows "n * 2 * (n sdiv 2 + 1) = n * (n + 2)"
proof -
  have "n sdiv 2 = n div 2" using assms(1) by (simp add: signed_divide_int_def sgn_if)
  moreover have "2 * (n div 2) = n" using assms(2) by simp
  ultimately have "2 * (n sdiv 2 + 1) = n + 2" by simp
  then show ?thesis by (simp add: mult.assoc)
qed

text \<open>
  Claim C2. The loop over the frequency bins leaves the zero-frequency bin
  (elements 0 and 1 of \<open>vx0\<close> and of \<open>vy0\<close>) as it is, and the mean of each
  velocity component over the grid is the same before and after the whole
  spectral step of \<^verbatim>\<open>solve\<close> (copy into the padded layout, forward transform,
  update of the bins, inverse transform, division by \<open>n\<^sup>2\<close>), for every velocity
  field, viscosity and time step. The transforms are those of a library that
  meets \<open>fftw_dc\<close>; the grid size is even, as the padded layout of the program
  requires.
\<close>

theorem spectral_step_preserves_mean:
  assumes "0 < n" and "even n" and "initialized n st" and "fftw_dc lib n"
  shows "rd (vx0 (solve_spectral n visc' dt' st)) 0 = rd (vx0 st) 0 \<and>
     rd (vx0 (solve_spectral n visc' dt' st)) 1 = rd (vx0 st) 1 \<and>
     rd (vy0 (solve_spectral n visc' dt' st)) 0 = rd (vy0 st) 0 \<and>
     rd (vy0 (solve_spectral n visc' dt' st)) 1 = rd (vy0 st) 1 \<and>
     grid_mean n (vx (solve_diffuse_project lib n visc' dt' st)) = grid_mean n (vx st) \<and>
     grid_mean n (vy (solve_diffuse_project lib n visc' dt' st)) = grid_mean n (vy st)"
proof -
  define L where "L = nat (n * (n + 2))"
  have init: "length (vx0 st) = L" "length (vy0 st) = L"
    "plan_rc st = Plan2d n n FFTW_REAL_TO_COMPLEX" "plan_cr st = Plan2d n n FFTW_COMPLEX_TO_REAL"
    using assms(3) padded_size [OF assms(1,2)] by (simp_all add: initialized_def L_def)
  have lenv: "nat (n * n) \<le> length (vx st)" "nat (n * n) \<le> length (vy st)"
    using initialized_lengths(1,2) [OF assms(1,3)] .
  have rc: "length (rfftwnd_one_real_to_complex lib (Plan2d n n FFTW_REAL_TO_COMPLEX) b) = L"
    "rd (rfftwnd_one_real_to_complex lib (Plan2d n n FFTW_REAL_TO_COMPLEX) b) 0 = grid_sum n (n + 2) b"
    "rd (rfftwnd_one_real_to_complex lib (Plan2d n n FFTW_REAL_TO_COMPLEX) b) 1 = 0"
    if "length b = L" for b
    using assms(4) that unfolding fftw_dc_def L_def by simp_all
  have cr: "length (rfftwnd_one_complex_to_real lib (Plan2d n n FFTW_COMPLEX_TO_REAL) c) = L"
    "grid_sum n (n + 2) (rfftwnd_one_complex_to_real lib (Plan2d n n FFTW_COMPLEX_TO_REAL) c)
       = of_int (n * n) * rd c 0"
    if "length c = L" "rd c 1 = 0" for c
    using assms(4) that unfolding fftw_dc_def L_def by simp_all
  define st1 where "st1 = solve_pad n st"
  define st2 where "st2 = st1\<lparr>vx0 := FFT lib st1 1 (vx0 st1)\<rparr>"
  define st3 where "st3 = st2\<lparr>vy0 := FFT lib st2 1 (vy0 st2)\<rparr>"
  define st4 where "st4 = solve_spectral n visc' dt' st3"
  define st5 where "st5 = st4\<lparr>vx0 := FFT lib st4 (- 1) (vx0 st4)\<rparr>"
  define st6 where "st6 = st5\<lparr>vy0 := FFT lib st5 (- 1) (vy0 st5)\<rparr>"
  have res: "solve_diffuse_project lib n visc' dt' st = solve_normalize n st6"
    by (simp add: solve_diffuse_project_def Let_def st1_def st2_def st3_def st4_def st5_def st6_def)
  have s1: "length (vx0 st1) = L" "length (vy0 st1) = L" "vx st1 = vx st" "vy st1 = vy st"
    "plan_rc st1 = Plan2d n n FFTW_REAL_TO_COMPLEX" "plan_cr st1 = Plan2d n n FFTW_COMPLEX_TO_REAL"
    by (simp_all add: st1_def solve_pad_frame init)
  have g1: "grid_sum n (n + 2) (vx0 st1) = grid_sum n n (vx st)"
    "grid_sum n (n + 2) (vy0 st1) = grid_sum n n (vy st)"
    using grid_sum_scaled [of n "vx0 st1" "n + 2" 1 "vx st" n]
      grid_sum_scaled [of n "vy0 st1" "n + 2" 1 "vy st" n]
      solve_pad_cells [of n st] init
    by (simp_all add: st1_def L_def)
  have s3: "length (vx0 st3) = L" "length (vy0 st3) = L" "vx st3 = vx st" "vy st3 = vy st"
    "plan_rc st3 = Plan2d n n FFTW_REAL_TO_COMPLEX" "plan_cr st3 = Plan2d n n FFTW_COMPLEX_TO_REAL"
    "rd (vx0 st3) 0 = grid_sum n n (vx st)" "rd (vx0 st3) 1 = 0"
    "rd (vy0 st3) 0 = grid_sum n n (vy st)" "rd (vy0 st3) 1 = 0"
    by (simp_all add: st3_def st2_def FFT_def s1 rc g1)
  have len3: "nat (n * (n + 2)) \<le> length (vx0 st3)" "nat (n * (n + 2)) \<le> length (vy0 st3)"
    by (simp_all add: s3 L_def)
  have s4: "length (vx0 st4) = L" "length (vy0 st4) = L" "vx st4 = vx st" "vy st4 = vy st"
    "plan_cr st4 = Plan2d n n FFTW_COMPLEX_TO_REAL"
    "rd (vx0 st4) 0 = grid_sum n n (vx st)" "rd (vx0 st4) 1 = 0"
    "rd (vy0 st4) 0 = grid_sum n n (vy st)" "rd (vy0 st4) 1 = 0"
    by (simp_all add: st4_def solve_spectral_frame solve_spectral_dc [OF len3 assms(1)] s3)
  have s6: "vx st6 = vx st" "vy st6 = vy st"
    "grid_sum n (n + 2) (vx0 st6) = of_int (n * n) * grid_sum n n (vx st)"
    "grid_sum n (n + 2) (vy0 st6) = of_int (n * n) * grid_sum n n (vy st)"
    by (simp_all add: st6_def st5_def FFT_def s4 cr)
  have len6: "nat (n * n) \<le> length (vx st6)" "nat (n * n) \<le> length (vy st6)"
    using lenv by (simp_all add: s6)
  have nz: "(of_int (n * n) :: real) \<noteq> 0" using assms(1) by simp
  have "grid_sum n n (vx (solve_normalize n st6)) = 1 / of_int (n * n) * grid_sum n (n + 2) (vx0 st6)"
    by (rule grid_sum_scaled) (rule solve_normalize_cells(1) [OF len6])
  then have mx: "grid_sum n n (vx (solve_normalize n st6)) = grid_sum n n (vx st)"
    using nz by (simp add: s6)
  have "grid_sum n n (vy (solve_normalize n st6)) = 1 / of_int (n * n) * grid_sum n (n + 2) (vy0 st6)"
    by (rule grid_sum_scaled) (rule solve_normalize_cells(2) [OF len6])
  then have my: "grid_sum n n (vy (solve_normalize n st6)) = grid_sum n n (vy st)"
    using nz by (simp add: s6)
  have len0: "nat (n * (n + 2)) \<le> length (vx0 st)" "nat (n * (n + 2)) \<le> length (vy0 st)"
    by (simp_all add: init L_def)
  show ?thesis
    using solve_spectral_dc [OF len0 assms(1), where visc' = visc' and dt' = dt'] mx my
    by (simp add: res grid_mean_def)
qed

lemma fftw_dc_example: "fftw_dc example_fftw 2"
proof -
  have two: "{0..<2::nat} = {0, Suc 0}" by auto
  show ?thesis
    unfolding fftw_dc_def example_fftw_def
    by (simp add: grid_sum_def two rd_def)
qed

theorem spectral_step_preserves_mean_witness:
  "(0::int) < 2 \<and> even (2::int) \<and> initialized 2 example_state \<and>
   grid_mean 2 (vx example_state) = 1 / 4 \<and>
   grid_mean 2 (vx (solve_diffuse_project example_fftw 2 (1 / 1000) (1 / 25) example_state)) = 1 / 4 \<and>
   rd (vx0 (solve_spectral 2 (1 / 1000) (1 / 25) example_state)) 0 = 1"
proof -
  have h: "(0::int) < 2" "even (2::int)" by simp_all
  have two: "{0..<2::nat} = {0, Suc 0}" by auto
  have m: "grid_mean 2 (vx example_state) = 1 / 4"
    by (simp add: grid_mean_def grid_sum_def two rd_def example_state_def)
  have v: "rd (vx0 example_state) 0 = 1"
    by (simp add: rd_def example_state_def)
  show ?thesis
    using h initialized_example_state m v
      spectral_step_preserves_mean [OF h initialized_example_state fftw_dc_example,
        where visc' = "1 / 1000" and dt' = "1 / 25"]
    by simp
qed

end
